theory Spec2Isabelle
  imports Main "HOL-Library.AList" "HOL-Library.Char_ord" "HOL-Library.List_Lexorder"
begin

section \<open>Playback controller (GraphAnimation)\<close>

text \<open>
  The component state of \<^verbatim>\<open>GraphAnimation\<close>: the three \<^verbatim>\<open>useState\<close> cells
  \<^verbatim>\<open>internalStep\<close>, \<^verbatim>\<open>isPlaying\<close> and \<^verbatim>\<open>speed\<close>.  The index is a JavaScript number;
  it is only ever incremented, decremented and compared, so it is an \<open>int\<close> here.
  The length of the trace (\<^verbatim>\<open>steps.length\<close>) is a parameter of every handler.
\<close>

record playback =
  step :: int
  isPlaying :: bool
  speed :: int

definition initial_playback :: playback where
  "initial_playback = \<lparr>step = 0, isPlaying = False, speed = 1500\<rparr>"

definition resetAnimation :: "playback \<Rightarrow> playback" where
  "resetAnimation s = s\<lparr>step := 0, isPlaying := False\<rparr>"

definition handleNext :: "int \<Rightarrow> playback \<Rightarrow> playback" where
  "handleNext len s =
     (let s1 = (if step s < len - 1 then s\<lparr>step := step s + 1\<rparr> else s)
      in s1\<lparr>isPlaying := False\<rparr>)"

definition handlePrev :: "playback \<Rightarrow> playback" where
  "handlePrev s =
     (let s1 = (if step s > 0 then s\<lparr>step := step s - 1\<rparr> else s)
      in s1\<lparr>isPlaying := False\<rparr>)"

text \<open>The play/pause button toggles \<^verbatim>\<open>isPlaying\<close>; the slider stores a new speed.\<close>

definition togglePlay :: "playback \<Rightarrow> playback" where
  "togglePlay s = s\<lparr>isPlaying := \<not> isPlaying s\<rparr>"

definition changeSpeed :: "int \<Rightarrow> playback \<Rightarrow> playback" where
  "changeSpeed v s = s\<lparr>speed := 3200 - v\<rparr>"

text \<open>
  The auto-advance effect, at the moment its timer fires (or, at the last index, at the
  moment the effect runs): while playing it advances by one below the last index and
  stops playing at the last index.
\<close>

definition autoAdvance :: "int \<Rightarrow> playback \<Rightarrow> playback" where
  "autoAdvance len s =
     (if isPlaying s then
        (if step s < len - 1 then s\<lparr>step := step s + 1\<rparr> else s\<lparr>isPlaying := False\<rparr>)
      else s)"

datatype control = Next | Prev | Reset

fun control_step :: "int \<Rightarrow> playback \<Rightarrow> control \<Rightarrow> playback" where
  "control_step len s Next = handleNext len s"
| "control_step len s Prev = handlePrev s"
| "control_step len s Reset = resetAnimation s"

definition run_controls :: "int \<Rightarrow> playback \<Rightarrow> control list \<Rightarrow> playback" where
  "run_controls len s cs = foldl (control_step len) s cs"

text \<open>
  \<^verbatim>\<open>const currentStep = steps[step] || steps[steps.length - 1]\<close>: an index outside the
  array reads \<^verbatim>\<open>undefined\<close>, which is falsy, so the last Step is taken; on an empty
  array both reads are \<^verbatim>\<open>undefined\<close> (\<open>None\<close>).
\<close>

definition js_index :: "'a list \<Rightarrow> int \<Rightarrow> 'a option" where
  "js_index xs i = (if 0 \<le> i \<and> i < int (length xs) then Some (xs ! nat i) else None)"

definition currentStep :: "'a list \<Rightarrow> int \<Rightarrow> 'a option" where
  "currentStep steps i =
     (case js_index steps i of
        Some st \<Rightarrow> Some st
      | None \<Rightarrow> js_index steps (int (length steps) - 1))"

section \<open>Synchronization layer (CompareMST)\<close>

text \<open>
  \<^verbatim>\<open>CompareMST\<close> owns one \<^verbatim>\<open>step\<close>/\<^verbatim>\<open>isPlaying\<close>/\<^verbatim>\<open>speed\<close> triple of its own and
  bounds it by \<^verbatim>\<open>maxSteps = Math.max(prims.steps.length, kruskals.steps.length)\<close>.
\<close>

definition maxSteps :: "'a list \<Rightarrow> 'b list \<Rightarrow> int" where
  "maxSteps prims kruskals = max (int (length prims)) (int (length kruskals))"

text \<open>
  Unlike the playback controller, its handlers and its timer change the index with an
  updater function, \<^verbatim>\<open>setStep(s => s + 1)\<close> and \<^verbatim>\<open>setStep(s => s - 1)\<close>, behind a guard
  on the \<^verbatim>\<open>step\<close> of the render that created the handler.  A state setter does not
  change the rendered state: it queues an update, and the queue is applied, in order, to
  the state when the component renders next.  An updater function is applied to the state
  the queue has reached, a value replaces it.
\<close>

datatype update = Set_step int | Step_up | Step_down | Set_isPlaying bool | Set_speed int

fun apply_update :: "update \<Rightarrow> playback \<Rightarrow> playback" where
  "apply_update (Set_step i) s = s\<lparr>step := i\<rparr>"
| "apply_update Step_up s = s\<lparr>step := step s + 1\<rparr>"
| "apply_update Step_down s = s\<lparr>step := step s - 1\<rparr>"
| "apply_update (Set_isPlaying b) s = s\<lparr>isPlaying := b\<rparr>"
| "apply_update (Set_speed v) s = s\<lparr>speed := v\<rparr>"

text \<open>
  What each handler queues when it runs in the render \<open>r\<close> (the state its closure has
  captured).
\<close>

definition compare_resetAnimation :: "update list" where
  "compare_resetAnimation = [Set_step 0, Set_isPlaying False]"

definition compare_handleNext :: "int \<Rightarrow> playback \<Rightarrow> update list" where
  "compare_handleNext maxS r = (if step r < maxS - 1 then [Step_up] else []) @ [Set_isPlaying False]"

definition compare_handlePrev :: "playback \<Rightarrow> update list" where
  "compare_handlePrev r = (if step r > 0 then [Step_down] else []) @ [Set_isPlaying False]"

definition compare_togglePlay :: "playback \<Rightarrow> update list" where
  "compare_togglePlay r = [Set_isPlaying (\<not> isPlaying r)]"

definition compare_changeSpeed :: "int \<Rightarrow> update list" where
  "compare_changeSpeed v = [Set_speed (3200 - v)]"

text \<open>
  The auto-advance effect of the render \<open>r\<close>: while playing, below the last index its
  timeout callback queues \<^verbatim>\<open>s => s + 1\<close> when it fires, and at the last index the effect
  itself stops playing.
\<close>

definition compare_autoAdvance :: "int \<Rightarrow> playback \<Rightarrow> update list" where
  "compare_autoAdvance maxS r =
     (if isPlaying r then (if step r < maxS - 1 then [Step_up] else [Set_isPlaying False]) else [])"

datatype event = Click control | Toggle | Timeout | Slider int

fun compare_handle :: "int \<Rightarrow> playback \<Rightarrow> event \<Rightarrow> update list" where
  "compare_handle maxS r (Click Next) = compare_handleNext maxS r"
| "compare_handle maxS r (Click Prev) = compare_handlePrev r"
| "compare_handle maxS r (Click Reset) = compare_resetAnimation"
| "compare_handle maxS r Toggle = compare_togglePlay r"
| "compare_handle maxS r Timeout = compare_autoAdvance maxS r"
| "compare_handle maxS r (Slider v) = compare_changeSpeed v"

text \<open>
  One render to the next: the events handled in between all run in the render \<open>r\<close>, and
  what they queued is applied in order.  A run is a sequence of such batches from the
  initial state.
\<close>

definition compare_render :: "int \<Rightarrow> playback \<Rightarrow> event list \<Rightarrow> playback" where
  "compare_render maxS r batch = fold apply_update (concat (map (compare_handle maxS r) batch)) r"

definition compare_run :: "'a list \<Rightarrow> 'b list \<Rightarrow> event list list \<Rightarrow> playback" where
  "compare_run prims kruskals batches =
     foldl (compare_render (maxSteps prims kruskals)) initial_playback batches"

text \<open>\<^verbatim>\<open>externalStep={Math.min(step, prims.steps.length - 1)}\<close>\<close>

definition externalStep :: "'a list \<Rightarrow> int \<Rightarrow> int" where
  "externalStep steps i = min i (int (length steps) - 1)"

text \<open>What one side of the comparison draws at the shared index.\<close>

definition rendered :: "'a list \<Rightarrow> int \<Rightarrow> 'a option" where
  "rendered steps i = currentStep steps (externalStep steps i)"

section \<open>Playback: index safety\<close>

lemma control_step_range:
  assumes "0 \<le> step s" "step s \<le> len - 1"
  shows "0 \<le> step (control_step len s c) \<and> step (control_step len s c) \<le> len - 1"
  using assms by (cases c) (auto simp: handleNext_def handlePrev_def resetAnimation_def Let_def)

lemma run_controls_range:
  assumes "0 \<le> step s" "step s \<le> len - 1"
  shows "0 \<le> step (run_controls len s cs) \<and> step (run_controls len s cs) \<le> len - 1"
  using assms unfolding run_controls_def
proof (induction cs arbitrary: s)
  case Nil
  then show ?case by simp
next
  case (Cons c cs)
  from control_step_range[OF Cons.prems]
  have "0 \<le> step (control_step len s c)" "step (control_step len s c) \<le> len - 1"
    by simp_all
  from Cons.IH[OF this] show ?case by simp
qed

text \<open>
  C6.  For a trace of length \<open>len \<ge> 1\<close> and any state \<open>s\<close> of the controller with its
  index in \<open>[0, len - 1]\<close>, playing or not (the initial state at index 0, and the same
  state after the play button, are two such states): after any finite sequence of \<open>next\<close>,
  \<open>prev\<close> and \<open>reset\<close> the index is in \<open>[0, len - 1]\<close>, and the controller is not playing
  as soon as the sequence is not empty; from the state reached, \<open>next\<close> yields
  \<open>min (i + 1) (len - 1)\<close>, \<open>prev\<close> yields \<open>max (i - 1) 0\<close>, both leave the controller not
  playing whether it was playing or not, and \<open>reset\<close> yields index 0, not playing.
\<close>

theorem playback_index_safety:
  assumes "1 \<le> len" and "0 \<le> step s" and "step s \<le> len - 1"
  shows "(let s' = run_controls len s cs in
            0 \<le> step s' \<and> step s' \<le> len - 1
          \<and> (cs \<noteq> [] \<longrightarrow> \<not> isPlaying s')
          \<and> step (handleNext len s') = min (step s' + 1) (len - 1)
          \<and> \<not> isPlaying (handleNext len s')
          \<and> step (handlePrev s') = max (step s' - 1) 0
          \<and> \<not> isPlaying (handlePrev s')
          \<and> step (resetAnimation s') = 0
          \<and> \<not> isPlaying (resetAnimation s'))"
proof -
  have idle: "cs \<noteq> [] \<Longrightarrow> \<not> isPlaying (run_controls len s cs)"
  proof (induction cs rule: rev_induct)
    case Nil
    then show ?case by simp
  next
    case (snoc c cs)
    show ?case
      by (cases c) (simp_all add: run_controls_def handleNext_def handlePrev_def
          resetAnimation_def Let_def)
  qed
  from run_controls_range[OF assms(2,3), of cs] idle
  show ?thesis
    by (auto simp: Let_def handleNext_def handlePrev_def resetAnimation_def)
qed

theorem playback_index_safety_witness:
  "(1::int) \<le> 3 \<and> step (togglePlay initial_playback) = 0
   \<and> isPlaying (togglePlay initial_playback)
   \<and> step (handleNext 3 (togglePlay initial_playback)) = 1
   \<and> \<not> isPlaying (handleNext 3 (togglePlay initial_playback))
   \<and> \<not> isPlaying (handlePrev (togglePlay initial_playback))
   \<and> \<not> isPlaying (resetAnimation (togglePlay initial_playback))
   \<and> step (run_controls 3 (togglePlay initial_playback) [Next, Next, Next, Next, Prev]) = 1
   \<and> \<not> isPlaying (run_controls 3 (togglePlay initial_playback) [Next, Next, Next, Next, Prev])
   \<and> step (handleNext 3 (run_controls 3 initial_playback [Next, Next, Next])) = 2"
  using playback_index_safety[of 3 "togglePlay initial_playback" "[]"]
    playback_index_safety[of 3 "togglePlay initial_playback" "[Next, Next, Next, Next, Prev]"]
    playback_index_safety[of 3 initial_playback "[Next, Next, Next]"]
  by (simp add: run_controls_def initial_playback_def togglePlay_def handleNext_def handlePrev_def
      resetAnimation_def Let_def)

section \<open>Synchronization: clamping\<close>

lemma rendered_in_range:
  assumes "steps \<noteq> []" "0 \<le> i"
  shows "rendered steps i = Some (steps ! nat (min i (int (length steps) - 1)))"
  using assms by (auto simp: rendered_def currentStep_def externalStep_def js_index_def)

text \<open>
  For a non-empty trace, whatever the shared index is above its last index, the side
  draws its final Step; at and below it, the Step of that number.
\<close>

lemma rendered_holds_final:
  assumes "steps \<noteq> []" "int (length steps) - 1 \<le> i"
  shows "externalStep steps i = int (length steps) - 1 \<and> rendered steps i = Some (last steps)"
proof -
  have i: "0 \<le> i" using assms by (cases steps) auto
  have m: "min i (int (length steps) - 1) = int (length steps) - 1" using assms(2) by simp
  have "nat (int (length steps) - 1) = length steps - 1" by simp
  with rendered_in_range[OF assms(1) i] m assms(1) show ?thesis
    by (simp add: externalStep_def last_conv_nth)
qed

text \<open>
  When the component renders after every event, the shared index stays in
  \<open>[0, maxSteps - 1]\<close>.
\<close>

lemma compare_render_single:
  assumes "0 \<le> step r" "step r \<le> maxS - 1"
  shows "0 \<le> step (compare_render maxS r [e]) \<and> step (compare_render maxS r [e]) \<le> maxS - 1"
proof (cases e)
  case (Click c)
  with assms show ?thesis
    by (cases c) (simp_all add: compare_render_def compare_handleNext_def compare_handlePrev_def
        compare_resetAnimation_def)
next
  case Toggle
  with assms show ?thesis by (simp add: compare_render_def compare_togglePlay_def)
next
  case Timeout
  with assms show ?thesis by (simp add: compare_render_def compare_autoAdvance_def)
next
  case (Slider v)
  with assms show ?thesis by (simp add: compare_render_def compare_changeSpeed_def)
qed

text \<open>
  C7.  The guard of \<^verbatim>\<open>handleNext\<close> and of the timer reads the rendered \<^verbatim>\<open>step\<close>, the
  updater \<^verbatim>\<open>s => s + 1\<close> the queued one.  With traces of lengths 2 and 4 (\<open>maxSteps\<close> 4):
  playing from index 0, two timeouts bring the shared index to 2; when then the timeout
  fires and Next is clicked before the component has rendered again, both pass the guard
  \<open>2 < 3\<close> and both updaters apply, and the shared index is 4, above \<open>maxSteps - 1\<close>; it
  stays there, since the guard now fails.  The same events each followed by a render end
  at index 3, as they do in the playback controller.  At shared index 4 the two sides still draw their own final Steps, numbers
  \<open>min 4 1 = 1\<close> and \<open>min 4 3 = 3\<close>.
\<close>

theorem comparison_index_overshoots:
  "maxSteps [''p0'', ''p1''] [''k0'', ''k1'', ''k2'', ''k3''] = 4
   \<and> step (compare_run [''p0'', ''p1''] [''k0'', ''k1'', ''k2'', ''k3'']
             [[Toggle], [Timeout], [Timeout]]) = 2
   \<and> isPlaying (compare_run [''p0'', ''p1''] [''k0'', ''k1'', ''k2'', ''k3'']
             [[Toggle], [Timeout], [Timeout]])
   \<and> step (compare_run [''p0'', ''p1''] [''k0'', ''k1'', ''k2'', ''k3'']
             [[Toggle], [Timeout], [Timeout], [Timeout, Click Next]]) = 4
   \<and> step (compare_run [''p0'', ''p1''] [''k0'', ''k1'', ''k2'', ''k3'']
             [[Toggle], [Timeout], [Timeout], [Timeout, Click Next], [Click Next], [Timeout]]) = 4
   \<and> step (compare_run [''p0'', ''p1''] [''k0'', ''k1'', ''k2'', ''k3'']
             [[Toggle], [Timeout], [Timeout], [Timeout], [Click Next]]) = 3
   \<and> step (handleNext 4 (autoAdvance 4 (autoAdvance 4 (autoAdvance 4
             (togglePlay initial_playback))))) = 3
   \<and> externalStep [''p0'', ''p1''] 4 = 1
   \<and> externalStep [''k0'', ''k1'', ''k2'', ''k3''] 4 = 3
   \<and> rendered [''p0'', ''p1''] 4 = Some ''p1''
   \<and> rendered [''k0'', ''k1'', ''k2'', ''k3''] 4 = Some ''k3''"
  by (simp add: compare_run_def compare_render_def maxSteps_def initial_playback_def
      compare_handleNext_def compare_togglePlay_def compare_autoAdvance_def
      handleNext_def autoAdvance_def togglePlay_def Let_def
      rendered_def currentStep_def externalStep_def js_index_def)

section \<open>Trace model\<close>

text \<open>
  \<^verbatim>\<open>Node\<close>, \<^verbatim>\<open>Edge\<close> and \<^verbatim>\<open>GraphData\<close> of the types module.  Numbers are the integers
  of the sample data.  \<^verbatim>\<open>adj\<close> is a JavaScript object: the association list of its
  own entries in key order (\<^verbatim>\<open>Object.keys\<close>).  Optional fields are options.
\<close>

record node =
  nid :: string
  pos_x :: int
  pos_y :: int

record edge =
  efrom :: string
  eto :: string
  weight :: int

record graph =
  nodes :: "node list"
  adj :: "(string \<times> string list) list"
  edges :: "edge list option"
  directed :: "bool option"

text \<open>
  What the source does where the model stops: \<open>TypeError\<close> is the exception thrown on
  reading a property of, or iterating, \<^verbatim>\<open>undefined\<close>.  The two others are not exceptions
  of the source: it would carry on with the value \<^verbatim>\<open>undefined\<close>, or with \<^verbatim>\<open>NaN\<close> or
  \<^verbatim>\<open>Infinity\<close>, which the integer model has no value for.
\<close>

datatype error = TypeError | Undefined_value | Not_a_number

text \<open>
  The \<^verbatim>\<open>description\<close> of a Step is a template string; the model keeps the template
  and the values put into it.
\<close>

datatype narration =
    BFS_Start string
  | BFS_Dequeue string
  | BFS_Explore string string
  | BFS_Complete
  | Dijkstra_Init
  | Dijkstra_Extract string
  | Dijkstra_Shorter string int
  | Dijkstra_Done string
  | Kruskal_Start
  | Kruskal_Consider edge
  | Kruskal_Add edge
  | Kruskal_Discard edge
  | Kruskal_Finished
  | Prim_Start string
  | Prim_AddAll string
  | Prim_Extract edge
  | Prim_Both
  | Prim_AddEdge edge string
  | Prim_AddNew string
  | Prim_Complete
  | FF_Start
  | FF_NoMorePaths
  | FF_Found "string list"
  | FF_Bottleneck int
  | FF_Augmented int int
  | Karger_Start
  | Karger_Select string string
  | Karger_Merge string string "string list"
  | Karger_Complete int

text \<open>\<^verbatim>\<open>number | '\<infinity>'\<close> of the distances facet (the sentinel is written as a string).\<close>

datatype dist = Infinite | Finite int

text \<open>
  An entry of \<^verbatim>\<open>dataStructure\<close>: the source formats each as text, a node id, a number,
  \<^verbatim>\<open>element(priority)\<close> of a priority queue (of node ids, or of edge objects), or
  \<^verbatim>\<open>from-to (weight)\<close> of an edge list.
\<close>

datatype cell =
    Cell_id string
  | Cell_num int
  | Cell_prio string int
  | Cell_prio_edge edge int
  | Cell_edge string string int

text \<open>
  A \<^verbatim>\<open>Set<string>\<close> iterates in insertion order: a list without repetition, \<^verbatim>\<open>add\<close>
  appending what is not yet there.
\<close>

definition set_add :: "string \<Rightarrow> string list \<Rightarrow> string list" where
  "set_add x xs = (if x \<in> set xs then xs else xs @ [x])"

text \<open>
  The Step facets the embedded generators write.  A facet a generator does not write is
  \<open>None\<close> (\<^verbatim>\<open>undefined\<close>); \<^verbatim>\<open>neighbor\<close> may also be written as \<^verbatim>\<open>null\<close> (\<open>Some None\<close>).
\<close>

record Step =
  description :: narration
  currentNode :: "string option"
  neighbor :: "string option option"
  dataStructure :: "cell list option"
  visited :: "string list option"
  distances :: "(string \<times> dist) list option"
  highlightedEdge :: "edge option"
  highlightedPath :: "string list option"
  mstEdges :: "string list option"
  nodeSets :: "(string \<times> string) list option"
  flows :: "(string \<times> int) list option"
  supernodes :: "(string \<times> string list) list option"
  graphData :: "graph option"

definition blank_step :: "narration \<Rightarrow> string option \<Rightarrow> Step" where
  "blank_step d cur =
     \<lparr>description = d, currentNode = cur, neighbor = None, dataStructure = None,
      visited = None, distances = None, highlightedEdge = None, highlightedPath = None,
      mstEdges = None, nodeSets = None, flows = None, supernodes = None, graphData = None\<rparr>"

text \<open>Reading a generator's result: the trace, and its final Step.\<close>

definition trace_of :: "error + 'a list \<Rightarrow> 'a list" where
  "trace_of r = (case r of Inl e \<Rightarrow> [] | Inr ss \<Rightarrow> ss)"

definition returns :: "error + 'a \<Rightarrow> bool" where
  "returns r = (case r of Inl e \<Rightarrow> False | Inr x \<Rightarrow> True)"

definition final_step :: "error + 'a list \<Rightarrow> 'a option" where
  "final_step r = (case r of Inl e \<Rightarrow> None | Inr ss \<Rightarrow> (if ss = [] then None else Some (last ss)))"

section \<open>Plain objects used as maps\<close>

text \<open>
  \<^verbatim>\<open>graph.adj\<close> is an object literal and \<^verbatim>\<open>parent\<close> is created as \<^verbatim>\<open>{}\<close>: both inherit
  the members of \<^verbatim>\<open>Object.prototype\<close>.  Reading a key gives the own entry where there is
  one; where there is none it gives \<^verbatim>\<open>undefined\<close>, unless the key is one of the names
  below, for which it gives the inherited member: a function, or for \<^verbatim>\<open>__proto__\<close> the
  prototype object.  An inherited member is truthy, is not iterable and has no
  \<^verbatim>\<open>forEach\<close>.
\<close>

definition object_prototype_names :: "string list" where
  "object_prototype_names =
     [''constructor'', ''hasOwnProperty'', ''isPrototypeOf'', ''propertyIsEnumerable'',
      ''toLocaleString'', ''toString'', ''valueOf'', ''__defineGetter__'', ''__defineSetter__'',
      ''__lookupGetter__'', ''__lookupSetter__'', ''__proto__'']"

datatype 'a property = Own 'a | Inherited | Absent

definition js_get :: "(string \<times> 'a) list \<Rightarrow> string \<Rightarrow> 'a property" where
  "js_get obj k =
     (case map_of obj k of
        Some v \<Rightarrow> Own v
      | None \<Rightarrow> if k \<in> set object_prototype_names then Inherited else Absent)"

text \<open>
  \<^verbatim>\<open>obj[k] = v\<close> for a string \<open>v\<close>: it adds or replaces the own entry, except that
  without an own entry \<^verbatim>\<open>__proto__\<close> is the inherited setter, which ignores a value that
  is not an object.
\<close>

definition js_set :: "string \<Rightarrow> 'a \<Rightarrow> (string \<times> 'a) list \<Rightarrow> (string \<times> 'a) list" where
  "js_set k v obj =
     (if k = ''__proto__'' \<and> map_of obj k = None then obj else AList.update k v obj)"

text \<open>
  \<^verbatim>\<open>graph.adj[u] || []\<close>, which the generators then spread, iterate with \<^verbatim>\<open>for ... of\<close>
  or walk with \<^verbatim>\<open>forEach\<close>: an inherited member is kept by \<^verbatim>\<open>||\<close> and each of the
  three throws a \<^verbatim>\<open>TypeError\<close> on it.
\<close>

definition neighbours_of :: "graph \<Rightarrow> string \<Rightarrow> error + string list" where
  "neighbours_of g u =
     (case js_get (adj g) u of
        Own ns \<Rightarrow> Inr ns
      | Inherited \<Rightarrow> Inl TypeError
      | Absent \<Rightarrow> Inr [])"

section \<open>Breadth-first search (bfs.ts)\<close>

definition bfs_graphData :: graph where
  "bfs_graphData = \<lparr>
     nodes = [\<lparr>nid = ''A'', pos_x = 100, pos_y = 200\<rparr>, \<lparr>nid = ''B'', pos_x = 250, pos_y = 100\<rparr>,
              \<lparr>nid = ''C'', pos_x = 250, pos_y = 300\<rparr>, \<lparr>nid = ''D'', pos_x = 400, pos_y = 100\<rparr>,
              \<lparr>nid = ''E'', pos_x = 400, pos_y = 300\<rparr>, \<lparr>nid = ''F'', pos_x = 550, pos_y = 200\<rparr>],
     adj = [(''A'', [''B'', ''C'']), (''B'', [''A'', ''D'']), (''C'', [''A'', ''E'']),
            (''D'', [''B'', ''F'']), (''E'', [''C'', ''F'']), (''F'', [''D'', ''E''])],
     edges = None, directed = None\<rparr>"

text \<open>The object literal every \<^verbatim>\<open>steps.push\<close> of the BFS generator builds.\<close>

definition bfs_step ::
  "narration \<Rightarrow> string list \<Rightarrow> string list \<Rightarrow> string option \<Rightarrow> string option \<Rightarrow> Step" where
  "bfs_step d queue vis cur nb =
     (blank_step d cur)\<lparr>neighbor := Some nb, dataStructure := Some (map Cell_id queue),
                         visited := Some vis\<rparr>"

text \<open>The \<^verbatim>\<open>for (const neighbor of neighbors)\<close> loop, on the queue, the visited set and the trace.\<close>

fun bfs_neighbors ::
  "string \<Rightarrow> string list \<Rightarrow> string list \<times> string list \<times> Step list
     \<Rightarrow> string list \<times> string list \<times> Step list" where
  "bfs_neighbors cur [] st = st"
| "bfs_neighbors cur (n # ns) (queue, vis, steps) =
     (if n \<notin> set vis then
        (let vis1 = set_add n vis; queue1 = queue @ [n]
         in bfs_neighbors cur ns
              (queue1, vis1,
               steps @ [bfs_step (BFS_Explore cur n) queue1 vis1 (Some cur) (Some n)]))
      else bfs_neighbors cur ns (queue, vis, steps))"

text \<open>Every id that occurs in some neighbour list: what the loops below can ever enqueue.\<close>

definition universe :: "graph \<Rightarrow> string set" where
  "universe g = (\<Union>(k, ns) \<in> set (adj g). set ns)"

lemma bfs_neighbors_measure:
  assumes "bfs_neighbors cur ns (q, v, s) = (q', v', s')" "set ns \<subseteq> U" "finite U"
  shows "length q' + card (U - set v') = length q + card (U - set v)"
  using assms
proof (induction ns arbitrary: q v s)
  case Nil
  then show ?case by simp
next
  case (Cons n ns)
  show ?case
  proof (cases "n \<in> set v")
    case True
    with Cons show ?thesis by simp
  next
    case False
    let ?v1 = "set_add n v"
    from False Cons.prems have rec: "bfs_neighbors cur ns (q @ [n], ?v1,
        s @ [bfs_step (BFS_Explore cur n) (q @ [n]) ?v1 (Some cur) (Some n)]) = (q', v', s')"
      by (simp add: Let_def)
    from Cons.IH[OF rec] Cons.prems
    have "length q' + card (U - set v') = length (q @ [n]) + card (U - set ?v1)" by simp
    moreover have "set ?v1 = insert n (set v)" by (auto simp: set_add_def)
    moreover have "n \<in> U - set v" using False Cons.prems by simp
    then have "card (U - insert n (set v)) + 1 = card (U - set v)"
      using \<open>finite U\<close>
      by (metis Diff_insert Suc_eq_plus1 card_Suc_Diff1 finite_Diff)
    ultimately show ?thesis by simp
  qed
qed

lemma bfs_loop_decreases:
  assumes "map_of (adj g) cur = Some ns"
  shows "(case bfs_neighbors cur ns (q, v, s) of (q', v', s') \<Rightarrow>
            length q' + card (universe g - set v')) < Suc (length q + card (universe g - set v))"
proof (cases "bfs_neighbors cur ns (q, v, s)")
  case (fields q' v' s')
  have fin: "finite (universe g)" by (auto simp: universe_def)
  have sub: "set ns \<subseteq> universe g"
    using assms(1) by (force simp: universe_def dest: map_of_SomeD)
  from bfs_neighbors_measure[OF fields sub fin] fields show ?thesis by simp
qed

text \<open>
  The \<^verbatim>\<open>while (queue.length > 0)\<close> loop.  \<^verbatim>\<open>graph.adj[currentNode]\<close> of a node without
  an entry is \<^verbatim>\<open>undefined\<close> or an inherited member, and iterating either throws.
\<close>

function bfs_loop ::
  "graph \<Rightarrow> string list \<Rightarrow> string list \<Rightarrow> Step list \<Rightarrow> error + (string list \<times> Step list)" where
  "bfs_loop g [] vis steps = Inr (vis, steps)"
| "bfs_loop g (cur # queue) vis steps =
     (let steps1 = steps @ [bfs_step (BFS_Dequeue cur) queue vis (Some cur) None]
      in case map_of (adj g) cur of
           None \<Rightarrow> Inl TypeError
         | Some neighbors \<Rightarrow>
             (case bfs_neighbors cur neighbors (queue, vis, steps1) of
                (queue2, vis2, steps2) \<Rightarrow> bfs_loop g queue2 vis2 steps2))"
  by pat_completeness auto
termination
  by (relation "measure (\<lambda>(g, q, v, s). length q + card (universe g - set v))")
     (auto simp: bfs_loop_decreases)

definition generateSteps_bfs :: "graph \<Rightarrow> string \<Rightarrow> error + Step list" where
  "generateSteps_bfs g startNode =
     (let queue = [startNode]; vis = set_add startNode [];
          steps = [bfs_step (BFS_Start startNode) queue vis None None]
      in case bfs_loop g queue vis steps of
           Inl e \<Rightarrow> Inl e
         | Inr (vis1, steps1) \<Rightarrow> Inr (steps1 @ [bfs_step BFS_Complete [] vis1 None None]))"

section \<open>Reference distances\<close>

text \<open>
  An independent reference for distances: all simple paths from a node, by exhaustive
  search bounded by the number of nodes, and the least cost among those that end at the
  target.  The cost of a hop is given by a function; \<open>None\<close> is "no such hop".
\<close>

fun simple_paths :: "(string \<Rightarrow> string list) \<Rightarrow> nat \<Rightarrow> string list \<Rightarrow> string \<Rightarrow> string list list" where
  "simple_paths nbrs 0 seen u = [[u]]"
| "simple_paths nbrs (Suc n) seen u =
     [u] # concat (map (\<lambda>v. map ((#) u) (simple_paths nbrs n (u # seen) v))
                       (filter (\<lambda>v. v \<notin> set (u # seen)) (nbrs u)))"

fun path_cost :: "(string \<Rightarrow> string \<Rightarrow> int option) \<Rightarrow> string list \<Rightarrow> int option" where
  "path_cost c [] = Some 0"
| "path_cost c [u] = Some 0"
| "path_cost c (u # v # p) =
     (case c u v of None \<Rightarrow> None
      | Some w \<Rightarrow> (case path_cost c (v # p) of None \<Rightarrow> None | Some r \<Rightarrow> Some (w + r)))"

definition least :: "int option list \<Rightarrow> int option" where
  "least cs = foldr (\<lambda>c acc. case c of None \<Rightarrow> acc
                     | Some x \<Rightarrow> (case acc of None \<Rightarrow> Some x | Some y \<Rightarrow> Some (min x y))) cs None"

text \<open>The successors of a node in the reference: the ids its \<^verbatim>\<open>adj\<close> entry lists.\<close>

definition successors :: "graph \<Rightarrow> string \<Rightarrow> string list" where
  "successors g u = (case map_of (adj g) u of None \<Rightarrow> [] | Some ns \<Rightarrow> ns)"

definition reference_distance ::
  "graph \<Rightarrow> (string \<Rightarrow> string \<Rightarrow> int option) \<Rightarrow> string \<Rightarrow> string \<Rightarrow> int option" where
  "reference_distance g c s t =
     least (map (path_cost c)
              (filter (\<lambda>p. last p = t) (simple_paths (successors g) (length (nodes g)) [] s)))"

definition unit_cost :: "string \<Rightarrow> string \<Rightarrow> int option" where
  "unit_cost u v = Some 1"

text \<open>The order in which nodes first appear in the visited sets along a trace.\<close>

definition marking_order :: "Step list \<Rightarrow> string list" where
  "marking_order steps =
     fold set_add (concat (map (\<lambda>s. case visited s of None \<Rightarrow> [] | Some vs \<Rightarrow> vs) steps)) []"

section \<open>Ford-Fulkerson (ford-fulkerson.ts)\<close>

definition ff_graphData :: graph where
  "ff_graphData = \<lparr>
     nodes = [\<lparr>nid = ''S'', pos_x = 100, pos_y = 200\<rparr>, \<lparr>nid = ''A'', pos_x = 275, pos_y = 100\<rparr>,
              \<lparr>nid = ''B'', pos_x = 275, pos_y = 300\<rparr>, \<lparr>nid = ''C'', pos_x = 450, pos_y = 100\<rparr>,
              \<lparr>nid = ''D'', pos_x = 450, pos_y = 300\<rparr>, \<lparr>nid = ''T'', pos_x = 600, pos_y = 200\<rparr>],
     adj = [(''S'', [''A'', ''B'']), (''A'', [''C'', ''D'']), (''B'', [''D'']),
            (''C'', [''T'']), (''D'', [''T'']), (''T'', [])],
     edges = Some [\<lparr>efrom = ''S'', eto = ''A'', weight = 10\<rparr>, \<lparr>efrom = ''S'', eto = ''B'', weight = 10\<rparr>,
                   \<lparr>efrom = ''A'', eto = ''C'', weight = 8\<rparr>, \<lparr>efrom = ''A'', eto = ''D'', weight = 4\<rparr>,
                   \<lparr>efrom = ''B'', eto = ''D'', weight = 9\<rparr>, \<lparr>efrom = ''C'', eto = ''T'', weight = 10\<rparr>,
                   \<lparr>efrom = ''D'', eto = ''T'', weight = 10\<rparr>],
     directed = Some True\<rparr>"

definition getDirectedEdgeKey :: "string \<Rightarrow> string \<Rightarrow> string" where
  "getDirectedEdgeKey f t = f @ ''->'' @ t"

text \<open>\<^verbatim>\<open>x || 0\<close> on a number that may be \<^verbatim>\<open>undefined\<close>.\<close>

definition or_zero :: "int option \<Rightarrow> int" where
  "or_zero x = (case x of None \<Rightarrow> 0 | Some n \<Rightarrow> n)"

text \<open>
  The two \<^verbatim>\<open>forEach\<close> loops that fill \<^verbatim>\<open>flows\<close> and \<^verbatim>\<open>capacities\<close>.  Both objects
  are read with such keys only; a key has a \<^verbatim>\<open>>\<close> in it, which no member name of
  \<^verbatim>\<open>Object.prototype\<close> has, so that a read without an own entry is \<^verbatim>\<open>undefined\<close>.
\<close>

definition initial_flows :: "edge list \<Rightarrow> (string \<times> int) list" where
  "initial_flows es =
     fold (\<lambda>e fl. AList.update (getDirectedEdgeKey (eto e) (efrom e)) 0
                     (AList.update (getDirectedEdgeKey (efrom e) (eto e)) 0 fl)) es []"

definition capacities_of :: "edge list \<Rightarrow> (string \<times> int) list" where
  "capacities_of es = fold (\<lambda>e cp. AList.update (getDirectedEdgeKey (efrom e) (eto e)) (weight e) cp) es []"

lemma directed_key_not_inherited: "js_get obj (getDirectedEdgeKey u v) \<noteq> Inherited"
proof -
  have "CHR ''>'' \<in> set (getDirectedEdgeKey u v)" by (simp add: getDirectedEdgeKey_def)
  moreover have "\<forall>n \<in> set object_prototype_names. CHR ''>'' \<notin> set n"
    by (simp add: object_prototype_names_def)
  ultimately have "getDirectedEdgeKey u v \<notin> set object_prototype_names" by blast
  then show ?thesis by (simp add: js_get_def split: option.splits)
qed

text \<open>\<^verbatim>\<open>createStep\<close>: \<^verbatim>\<open>path || undefined\<close> keeps every array, also the empty one.\<close>

definition ff_createStep ::
  "(string \<times> int) list \<Rightarrow> int \<Rightarrow> narration \<Rightarrow> string list option \<Rightarrow> Step" where
  "ff_createStep fl totalFlow desc path =
     (blank_step desc None)\<lparr>highlightedPath := path, flows := Some fl,
                             dataStructure := Some [Cell_num totalFlow]\<rparr>"

text \<open>
  The candidates of the inner \<^verbatim>\<open>for\<close>: the spread of \<^verbatim>\<open>graph.adj[u] || []\<close> followed
  by the keys of \<^verbatim>\<open>adj\<close> whose list includes \<^verbatim>\<open>u\<close>.
\<close>

definition lists_node :: "graph \<Rightarrow> string \<Rightarrow> string \<Rightarrow> bool" where
  "lists_node g u n = (case map_of (adj g) n of None \<Rightarrow> False | Some ns \<Rightarrow> u \<in> set ns)"

definition residual_candidates :: "graph \<Rightarrow> string \<Rightarrow> error + string list" where
  "residual_candidates g u =
     (case neighbours_of g u of
        Inl e \<Rightarrow> Inl e
      | Inr ns \<Rightarrow> Inr (ns @ filter (lists_node g u) (map fst (adj g))))"

text \<open>
  The inner \<^verbatim>\<open>for\<close> of the path search.  The flag is \<open>True\<close> when the labelled
  \<^verbatim>\<open>break pathFinding\<close> was taken.
\<close>

fun ff_scan ::
  "(string \<times> int) list \<Rightarrow> (string \<times> int) list \<Rightarrow> string \<Rightarrow> string \<Rightarrow> string list
     \<Rightarrow> (string \<times> string) list \<times> string list \<times> string list
     \<Rightarrow> bool \<times> (string \<times> string) list \<times> string list \<times> string list" where
  "ff_scan caps fl endNode u [] st = (False, st)"
| "ff_scan caps fl endNode u (v # vs) (parent, vis, queue) =
     (let capacity = or_zero (map_of caps (getDirectedEdgeKey u v));
          flow = or_zero (map_of fl (getDirectedEdgeKey u v))
      in if v \<notin> set vis \<and> capacity - flow > 0 then
           (let parent1 = js_set v u parent; vis1 = set_add v vis; queue1 = queue @ [v]
            in if v = endNode then (True, parent1, vis1, queue1)
               else ff_scan caps fl endNode u vs (parent1, vis1, queue1))
         else ff_scan caps fl endNode u vs (parent, vis, queue))"

text \<open>The \<^verbatim>\<open>while (queue.length > 0)\<close> loop of the path search; it returns \<^verbatim>\<open>parent\<close>.\<close>

partial_function (option) ff_search ::
  "graph \<Rightarrow> (string \<times> int) list \<Rightarrow> (string \<times> int) list \<Rightarrow> string
     \<Rightarrow> (string \<times> string) list \<times> string list \<times> string list
     \<Rightarrow> (error + (string \<times> string) list) option" where
  "ff_search g caps fl endNode st =
     (case st of (parent, vis, queue) \<Rightarrow>
        (case queue of
           [] \<Rightarrow> Some (Inr parent)
         | u # rest \<Rightarrow>
             (case residual_candidates g u of
                Inl e \<Rightarrow> Some (Inl e)
              | Inr candidates \<Rightarrow>
                  (case ff_scan caps fl endNode u candidates (parent, vis, rest) of
                     (found, st1) \<Rightarrow>
                       if found then Some (Inr (fst st1)) else ff_search g caps fl endNode st1))))"

declare ff_search.simps [code]

text \<open>
  \<^verbatim>\<open>while (curr !== startNode) { path.unshift(curr); curr = parent[curr]; }\<close>.  Where
  \<^verbatim>\<open>parent[curr]\<close> is no own entry, \<^verbatim>\<open>curr\<close> becomes \<^verbatim>\<open>undefined\<close> or an inherited
  member, neither of which is the start node or the key of an entry, and the source
  never leaves the loop: \<open>None\<close>.
\<close>

partial_function (option) ff_reconstruct ::
  "(string \<times> string) list \<Rightarrow> string \<Rightarrow> string \<Rightarrow> string list \<Rightarrow> string list option" where
  "ff_reconstruct parent startNode cur path =
     (if cur \<noteq> startNode then
        (case js_get parent cur of
           Own p \<Rightarrow> ff_reconstruct parent startNode p (cur # path)
         | Inherited \<Rightarrow> None
         | Absent \<Rightarrow> None)
      else Some (startNode # path))"

declare ff_reconstruct.simps [code]

text \<open>The bottleneck loop; \<open>None\<close> is the initial \<^verbatim>\<open>Infinity\<close>.\<close>

fun ff_bottleneck ::
  "(string \<times> int) list \<Rightarrow> (string \<times> int) list \<Rightarrow> string list \<Rightarrow> int option \<Rightarrow> int option" where
  "ff_bottleneck caps fl (u # v # p) b =
     (let key = getDirectedEdgeKey u v;
          r = or_zero (map_of caps key) - or_zero (map_of fl key)
      in ff_bottleneck caps fl (v # p) (case b of None \<Rightarrow> Some r | Some m \<Rightarrow> Some (min m r)))"
| "ff_bottleneck caps fl p b = b"

text \<open>
  The augmenting loop.  \<^verbatim>\<open>flows[key] += bottleneck\<close> on a key without an entry would
  store \<^verbatim>\<open>NaN\<close>.
\<close>

definition add_flow :: "string \<Rightarrow> int \<Rightarrow> (string \<times> int) list \<Rightarrow> error + (string \<times> int) list" where
  "add_flow key d fl =
     (case map_of fl key of None \<Rightarrow> Inl Not_a_number | Some f \<Rightarrow> Inr (AList.update key (f + d) fl))"

fun ff_augment :: "string list \<Rightarrow> int \<Rightarrow> (string \<times> int) list \<Rightarrow> error + (string \<times> int) list" where
  "ff_augment (u # v # p) b fl =
     (case add_flow (getDirectedEdgeKey u v) b fl of
        Inl e \<Rightarrow> Inl e
      | Inr fl1 \<Rightarrow>
          (case add_flow (getDirectedEdgeKey v u) (- b) fl1 of
             Inl e \<Rightarrow> Inl e
           | Inr fl2 \<Rightarrow> ff_augment (v # p) b fl2))"
| "ff_augment p b fl = Inr fl"

text \<open>
  \<^verbatim>\<open>!parent[endNode]\<close> holds for \<^verbatim>\<open>undefined\<close> and for the empty string; it does not
  hold for an inherited member.
\<close>

definition no_parent :: "(string \<times> string) list \<Rightarrow> string \<Rightarrow> bool" where
  "no_parent parent endNode =
     (case js_get parent endNode of Own p \<Rightarrow> p = [] | Inherited \<Rightarrow> False | Absent \<Rightarrow> True)"

text \<open>The outer \<^verbatim>\<open>while (true)\<close>.\<close>

partial_function (option) ff_loop ::
  "graph \<Rightarrow> string \<Rightarrow> string \<Rightarrow> (string \<times> int) list
     \<Rightarrow> (string \<times> int) list \<times> int \<times> Step list \<Rightarrow> (error + Step list) option" where
  "ff_loop g startNode endNode caps st =
     (case st of (fl, totalFlow, steps) \<Rightarrow>
        (case ff_search g caps fl endNode ([], set_add startNode [], [startNode]) of
           None \<Rightarrow> None
         | Some (Inl e) \<Rightarrow> Some (Inl e)
         | Some (Inr parent) \<Rightarrow>
             if no_parent parent endNode
             then Some (Inr (steps @ [ff_createStep fl totalFlow FF_NoMorePaths None]))
             else
               (case ff_reconstruct parent startNode endNode [] of
                  None \<Rightarrow> None
                | Some path \<Rightarrow>
                    (let steps1 = steps @ [ff_createStep fl totalFlow (FF_Found path) (Some path)]
                     in case ff_bottleneck caps fl path None of
                          None \<Rightarrow> Some (Inl Not_a_number)
                        | Some bottleneck \<Rightarrow>
                            (let steps2 = steps1 @ [ff_createStep fl totalFlow
                                                      (FF_Bottleneck bottleneck) (Some path)]
                             in case ff_augment path bottleneck fl of
                                  Inl e \<Rightarrow> Some (Inl e)
                                | Inr fl1 \<Rightarrow>
                                    (let totalFlow1 = totalFlow + bottleneck
                                     in ff_loop g startNode endNode caps
                                          (fl1, totalFlow1,
                                           steps2 @ [ff_createStep fl1 totalFlow1
                                                       (FF_Augmented bottleneck totalFlow1)
                                                       (Some path)])))))))"

declare ff_loop.simps [code]

definition generateSteps_ff :: "graph \<Rightarrow> string \<Rightarrow> string \<Rightarrow> (error + Step list) option" where
  "generateSteps_ff g startNode endNode =
     (case edges g of
        None \<Rightarrow> Some (Inl TypeError)
      | Some es \<Rightarrow>
          (let fl = initial_flows es; caps = capacities_of es
           in ff_loop g startNode endNode caps (fl, 0, [ff_createStep fl 0 FF_Start None])))"

section \<open>Minimum cut from the residual graph (phase 2 of the min-cut generator)\<close>

text \<open>
  \<^verbatim>\<open>potentialNeighbors\<close> is a \<^verbatim>\<open>Set\<close>: the same candidates as above, without repetition.
\<close>

definition potentialNeighbors :: "graph \<Rightarrow> string \<Rightarrow> error + string list" where
  "potentialNeighbors g u =
     (case residual_candidates g u of
        Inl e \<Rightarrow> Inl e
      | Inr candidates \<Rightarrow> Inr (fold set_add candidates []))"

text \<open>
  \<^verbatim>\<open>(capacities[key] || 0) - flows[key] > 0\<close>: with no entry in \<^verbatim>\<open>flows\<close> the difference
  is \<^verbatim>\<open>NaN\<close> and the comparison is false.
\<close>

definition residual_positive :: "(string \<times> int) list \<Rightarrow> (string \<times> int) list \<Rightarrow> string \<Rightarrow> string \<Rightarrow> bool" where
  "residual_positive caps fl u v =
     (case map_of fl (getDirectedEdgeKey u v) of
        None \<Rightarrow> False
      | Some f \<Rightarrow> or_zero (map_of caps (getDirectedEdgeKey u v)) - f > 0)"

fun cut_scan ::
  "(string \<times> int) list \<Rightarrow> (string \<times> int) list \<Rightarrow> string \<Rightarrow> string list
     \<Rightarrow> string list \<times> string list \<Rightarrow> string list \<times> string list" where
  "cut_scan caps fl u [] st = st"
| "cut_scan caps fl u (v # vs) (sSet, queue) =
     (if v \<notin> set sSet \<and> residual_positive caps fl u v
      then cut_scan caps fl u vs (set_add v sSet, queue @ [v])
      else cut_scan caps fl u vs (sSet, queue))"

partial_function (option) cut_search ::
  "graph \<Rightarrow> (string \<times> int) list \<Rightarrow> (string \<times> int) list \<Rightarrow> string list \<Rightarrow> string list
     \<Rightarrow> (error + string list) option" where
  "cut_search g caps fl sSet queue =
     (case queue of
        [] \<Rightarrow> Some (Inr sSet)
      | u # rest \<Rightarrow>
          (case potentialNeighbors g u of
             Inl e \<Rightarrow> Some (Inl e)
           | Inr candidates \<Rightarrow>
               (case cut_scan caps fl u candidates (sSet, rest) of
                  (sSet1, queue1) \<Rightarrow> cut_search g caps fl sSet1 queue1)))"

declare cut_search.simps [code]

text \<open>
  The S-set: the nodes reachable from the source in the residual graph of \<open>fl\<close>; \<open>None\<close>
  where the source produces none.
\<close>

definition residual_reachable :: "graph \<Rightarrow> (string \<times> int) list \<Rightarrow> string \<Rightarrow> string list option" where
  "residual_reachable g fl startNode =
     (case edges g of
        None \<Rightarrow> None
      | Some es \<Rightarrow>
          (case cut_search g (capacities_of es) fl (set_add startNode []) [startNode] of
             Some (Inr sSet) \<Rightarrow> Some sSet
           | _ \<Rightarrow> None))"

text \<open>\<^verbatim>\<open>cutValue\<close>: the weights of the edges from the S-set to its complement.\<close>

definition cutValue :: "edge list \<Rightarrow> string list \<Rightarrow> int" where
  "cutValue es sSet =
     fold (\<lambda>e c. if efrom e \<in> set sSet \<and> eto e \<notin> set sSet then c + weight e else c) es 0"

definition min_cut_capacity :: "graph \<Rightarrow> (string \<times> int) list \<Rightarrow> string \<Rightarrow> int option" where
  "min_cut_capacity g fl startNode =
     (case edges g of
        None \<Rightarrow> None
      | Some es \<Rightarrow> map_option (cutValue es) (residual_reachable g fl startNode))"

text \<open>The total flow and the flow map of the final Step of a Ford-Fulkerson trace.\<close>

definition final_total_flow :: "(error + Step list) option \<Rightarrow> cell list option" where
  "final_total_flow r =
     (case r of None \<Rightarrow> None
      | Some t \<Rightarrow> (case final_step t of None \<Rightarrow> None | Some s \<Rightarrow> dataStructure s))"

definition final_flows :: "(error + Step list) option \<Rightarrow> (string \<times> int) list" where
  "final_flows r =
     (case r of None \<Rightarrow> []
      | Some t \<Rightarrow> (case final_step t of None \<Rightarrow> []
                   | Some s \<Rightarrow> (case flows s of None \<Rightarrow> [] | Some fl \<Rightarrow> fl)))"

section \<open>Priority queue and disjoint-set forest (utils)\<close>

text \<open>
  \<^verbatim>\<open>PriorityQueue\<close>: an array of (element, priority) kept sorted by a stable sort after
  every \<^verbatim>\<open>push\<close>; \<^verbatim>\<open>dequeue\<close> is \<^verbatim>\<open>shift\<close>.
\<close>

type_synonym 'a pqueue = "('a \<times> int) list"

definition enqueue :: "'a \<Rightarrow> int \<Rightarrow> 'a pqueue \<Rightarrow> 'a pqueue" where
  "enqueue x p elements = sort_key snd (elements @ [(x, p)])"

definition toStringArray :: "('a \<Rightarrow> int \<Rightarrow> cell) \<Rightarrow> 'a pqueue \<Rightarrow> cell list" where
  "toStringArray render elements = map (\<lambda>(x, p). render x p) elements"

text \<open>
  \<^verbatim>\<open>DisjointSet\<close>: the \<^verbatim>\<open>parent\<close> object; \<^verbatim>\<open>find\<close> and \<^verbatim>\<open>union\<close> are \<open>find_dsu\<close> and
  \<open>union_dsu\<close> here.  \<^verbatim>\<open>find\<close> follows parents to a root and then
  stores the root as the parent of every element on the way back; on a cyclic
  \<^verbatim>\<open>parent\<close> it would not return (\<open>None\<close>).  For an id without an entry the source goes
  on with \<^verbatim>\<open>undefined\<close>.
\<close>

type_synonym dsu = "(string \<times> string) list"

definition new_DisjointSet :: "string list \<Rightarrow> dsu" where
  "new_DisjointSet elements = fold (\<lambda>e p. AList.update e e p) elements []"

partial_function (option) find_dsu :: "dsu \<Rightarrow> string \<Rightarrow> (error + string \<times> dsu) option" where
  "find_dsu parent i =
     (case map_of parent i of
        None \<Rightarrow> Some (Inl Undefined_value)
      | Some j \<Rightarrow>
          if j = i then Some (Inr (i, parent))
          else Option.bind (find_dsu parent j)
                 (\<lambda>r. case r of
                         Inl e \<Rightarrow> Some (Inl e)
                       | Inr (root, parent1) \<Rightarrow> Some (Inr (root, AList.update i root parent1))))"

declare find_dsu.simps [code]

definition union_dsu :: "dsu \<Rightarrow> string \<Rightarrow> string \<Rightarrow> (error + dsu) option" where
  "union_dsu parent i j =
     (case find_dsu parent i of
        None \<Rightarrow> None
      | Some (Inl e) \<Rightarrow> Some (Inl e)
      | Some (Inr (rootI, parent1)) \<Rightarrow>
          (case find_dsu parent1 j of
             None \<Rightarrow> None
           | Some (Inl e) \<Rightarrow> Some (Inl e)
           | Some (Inr (rootJ, parent2)) \<Rightarrow>
               Some (Inr (if rootI \<noteq> rootJ then AList.update rootJ rootI parent2 else parent2))))"

text \<open>\<^verbatim>\<open>getSets\<close>: \<^verbatim>\<open>find\<close> on every key, in key order, each call compressing paths.\<close>

fun getSets_keys :: "string list \<Rightarrow> dsu \<Rightarrow> (string \<times> string) list
    \<Rightarrow> (error + (string \<times> string) list \<times> dsu) option" where
  "getSets_keys [] parent sets = Some (Inr (sets, parent))"
| "getSets_keys (key # keys) parent sets =
     (case find_dsu parent key of
        None \<Rightarrow> None
      | Some (Inl e) \<Rightarrow> Some (Inl e)
      | Some (Inr (root, parent1)) \<Rightarrow> getSets_keys keys parent1 (AList.update key root sets))"

definition getSets :: "dsu \<Rightarrow> (error + (string \<times> string) list \<times> dsu) option" where
  "getSets parent = getSets_keys (map fst parent) parent []"

section \<open>Dijkstra (shortest-path generator)\<close>

definition dijkstra_graphData :: graph where
  "dijkstra_graphData = \<lparr>
     nodes = [\<lparr>nid = ''A'', pos_x = 100, pos_y = 200\<rparr>, \<lparr>nid = ''B'', pos_x = 250, pos_y = 100\<rparr>,
              \<lparr>nid = ''C'', pos_x = 250, pos_y = 300\<rparr>, \<lparr>nid = ''D'', pos_x = 450, pos_y = 100\<rparr>,
              \<lparr>nid = ''E'', pos_x = 450, pos_y = 300\<rparr>, \<lparr>nid = ''F'', pos_x = 600, pos_y = 200\<rparr>],
     adj = [(''A'', [''B'', ''C'']), (''B'', [''A'', ''D'', ''C'']), (''C'', [''A'', ''B'', ''E'']),
            (''D'', [''B'', ''F'']), (''E'', [''C'', ''F'']), (''F'', [''D'', ''E''])],
     edges = Some [\<lparr>efrom = ''A'', eto = ''B'', weight = 4\<rparr>, \<lparr>efrom = ''A'', eto = ''C'', weight = 2\<rparr>,
                   \<lparr>efrom = ''B'', eto = ''C'', weight = 1\<rparr>, \<lparr>efrom = ''B'', eto = ''D'', weight = 5\<rparr>,
                   \<lparr>efrom = ''C'', eto = ''E'', weight = 3\<rparr>, \<lparr>efrom = ''D'', eto = ''F'', weight = 3\<rparr>,
                   \<lparr>efrom = ''E'', eto = ''F'', weight = 1\<rparr>],
     directed = None\<rparr>"

text \<open>
  \<^verbatim>\<open>graph.edges!.find(e => (e.from === a && e.to === b) || (e.from === b && e.to === a))\<close>;
  \<^verbatim>\<open>graph.edges\<close> being \<^verbatim>\<open>undefined\<close> throws.
\<close>

definition find_edge :: "graph \<Rightarrow> string \<Rightarrow> string \<Rightarrow> error + edge option" where
  "find_edge g a b =
     (case edges g of
        None \<Rightarrow> Inl TypeError
      | Some es \<Rightarrow>
          Inr (List.find (\<lambda>e. (efrom e = a \<and> eto e = b) \<or> (efrom e = b \<and> eto e = a)) es))"

definition dijkstra_step ::
  "narration \<Rightarrow> string pqueue \<Rightarrow> string list \<Rightarrow> string option \<Rightarrow> string option
     \<Rightarrow> (string \<times> dist) list \<Rightarrow> Step" where
  "dijkstra_step d pq vis cur nb ds =
     (blank_step d cur)\<lparr>neighbor := Some nb, dataStructure := Some (toStringArray Cell_prio pq),
                         visited := Some vis, distances := Some ds\<rparr>"

text \<open>
  \<^verbatim>\<open>neighborDist === '\<infinity>' || newDist < neighborDist\<close>; against \<^verbatim>\<open>undefined\<close> the
  comparison is false.
\<close>

definition improves :: "int \<Rightarrow> dist option \<Rightarrow> bool" where
  "improves newDist neighborDist =
     (case neighborDist of None \<Rightarrow> False | Some Infinite \<Rightarrow> True | Some (Finite d) \<Rightarrow> newDist < d)"

text \<open>
  The relaxation loop over the neighbours of the extracted node.  \<^verbatim>\<open>edge.weight\<close> of an
  edge that \<^verbatim>\<open>find\<close> did not find throws; a current distance that is not a number makes
  \<^verbatim>\<open>newDist\<close> a string or \<^verbatim>\<open>NaN\<close>.
\<close>

fun dijkstra_neighbors ::
  "graph \<Rightarrow> string \<Rightarrow> string list \<Rightarrow> string list
     \<Rightarrow> (string \<times> dist) list \<times> string pqueue \<times> Step list
     \<Rightarrow> error + (string \<times> dist) list \<times> string pqueue \<times> Step list" where
  "dijkstra_neighbors g cur vis [] st = Inr st"
| "dijkstra_neighbors g cur vis (n # ns) (ds, pq, steps) =
     (if n \<notin> set vis then
        (case find_edge g cur n of
           Inl e \<Rightarrow> Inl e
         | Inr None \<Rightarrow> Inl TypeError
         | Inr (Some edge) \<Rightarrow>
             (case map_of ds cur of
                Some (Finite currentDist) \<Rightarrow>
                  (let newDist = currentDist + weight edge
                   in if improves newDist (map_of ds n) then
                        (let ds1 = AList.update n (Finite newDist) ds;
                             pq1 = enqueue n newDist pq
                         in dijkstra_neighbors g cur vis ns
                              (ds1, pq1,
                               steps @ [(dijkstra_step (Dijkstra_Shorter n newDist) pq1 vis
                                           (Some cur) (Some n) ds1)
                                        \<lparr>highlightedEdge := Some edge\<rparr>]))
                      else dijkstra_neighbors g cur vis ns (ds, pq, steps))
              | Some Infinite \<Rightarrow> Inl Not_a_number
              | None \<Rightarrow> Inl Not_a_number))
      else dijkstra_neighbors g cur vis ns (ds, pq, steps))"

text \<open>
  The \<^verbatim>\<open>while (!pq.isEmpty())\<close> loop: an entry whose node is already visited is dequeued
  and skipped.
\<close>

partial_function (option) dijkstra_loop ::
  "graph \<Rightarrow> string pqueue \<Rightarrow> string list \<Rightarrow> (string \<times> dist) list \<Rightarrow> Step list
     \<Rightarrow> (error + string list \<times> (string \<times> dist) list \<times> Step list) option" where
  "dijkstra_loop g pq vis ds steps =
     (case pq of
        [] \<Rightarrow> Some (Inr (vis, ds, steps))
      | entry # rest \<Rightarrow>
          (let currentNode = fst entry
           in if currentNode \<in> set vis then dijkstra_loop g rest vis ds steps
              else
                (let vis1 = set_add currentNode vis;
                     steps1 = steps @ [dijkstra_step (Dijkstra_Extract currentNode) rest vis1
                                         (Some currentNode) None ds]
                 in case map_of (adj g) currentNode of
                      None \<Rightarrow> Some (Inl TypeError)
                    | Some neighbors \<Rightarrow>
                        (case dijkstra_neighbors g currentNode vis1 neighbors (ds, rest, steps1) of
                           Inl e \<Rightarrow> Some (Inl e)
                         | Inr (ds2, pq2, steps2) \<Rightarrow> dijkstra_loop g pq2 vis1 ds2 steps2))))"

declare dijkstra_loop.simps [code]

definition generateSteps_dijkstra :: "graph \<Rightarrow> string \<Rightarrow> (error + Step list) option" where
  "generateSteps_dijkstra g startNode =
     (let ds0 = fold (\<lambda>n ds. AList.update (nid n) Infinite ds) (nodes g) [];
          ds = AList.update startNode (Finite 0) ds0;
          pq = enqueue startNode 0 [];
          steps = [dijkstra_step Dijkstra_Init pq [] None None ds]
      in case dijkstra_loop g pq [] ds steps of
           None \<Rightarrow> None
         | Some (Inl e) \<Rightarrow> Some (Inl e)
         | Some (Inr (vis1, ds1, steps1)) \<Rightarrow>
             Some (Inr (steps1 @ [dijkstra_step (Dijkstra_Done startNode) [] vis1 None None ds1])))"

text \<open>The cost of a hop in the weighted sample graphs: the weight of the edge between the two nodes.\<close>

definition edge_cost :: "graph \<Rightarrow> string \<Rightarrow> string \<Rightarrow> int option" where
  "edge_cost g u v = (case find_edge g u v of Inr (Some e) \<Rightarrow> Some (weight e) | _ \<Rightarrow> None)"

definition final_distances :: "(error + Step list) option \<Rightarrow> (string \<times> dist) list option" where
  "final_distances r =
     (case r of None \<Rightarrow> None
      | Some t \<Rightarrow> (case final_step t of None \<Rightarrow> None | Some s \<Rightarrow> distances s))"

section \<open>Kruskal (kruskal.ts) and Prim\<close>

definition mst_graphData :: graph where
  "mst_graphData = \<lparr>
     nodes = [\<lparr>nid = ''A'', pos_x = 100, pos_y = 100\<rparr>, \<lparr>nid = ''B'', pos_x = 300, pos_y = 50\<rparr>,
              \<lparr>nid = ''C'', pos_x = 250, pos_y = 250\<rparr>, \<lparr>nid = ''D'', pos_x = 500, pos_y = 100\<rparr>,
              \<lparr>nid = ''E'', pos_x = 450, pos_y = 300\<rparr>, \<lparr>nid = ''F'', pos_x = 600, pos_y = 200\<rparr>],
     adj = [(''A'', [''B'', ''C'']), (''B'', [''A'', ''C'', ''D'']), (''C'', [''A'', ''B'', ''E'']),
            (''D'', [''B'', ''F'']), (''E'', [''C'', ''F'']), (''F'', [''D'', ''E''])],
     edges = Some [\<lparr>efrom = ''A'', eto = ''B'', weight = 3\<rparr>, \<lparr>efrom = ''A'', eto = ''C'', weight = 2\<rparr>,
                   \<lparr>efrom = ''B'', eto = ''C'', weight = 1\<rparr>, \<lparr>efrom = ''B'', eto = ''D'', weight = 6\<rparr>,
                   \<lparr>efrom = ''C'', eto = ''E'', weight = 8\<rparr>, \<lparr>efrom = ''D'', eto = ''F'', weight = 4\<rparr>,
                   \<lparr>efrom = ''E'', eto = ''F'', weight = 5\<rparr>],
     directed = None\<rparr>"

text \<open>
  \<^verbatim>\<open>[edge.from, edge.to].sort().join('-')\<close>: the default sort orders strings by code
  unit, the lexicographic order of the characters here.
\<close>

definition getEdgeKey :: "edge \<Rightarrow> string" where
  "getEdgeKey e =
     (if efrom e \<le> eto e then efrom e @ ''-'' @ eto e else eto e @ ''-'' @ efrom e)"

definition kruskal_step ::
  "narration \<Rightarrow> edge list \<Rightarrow> (string \<times> string) list \<Rightarrow> edge option \<Rightarrow> string list \<Rightarrow> Step" where
  "kruskal_step d sortedEdges sets hl mst =
     (blank_step d None)\<lparr>neighbor := Some None,
                          dataStructure := Some (map (\<lambda>e. Cell_edge (efrom e) (eto e) (weight e)) sortedEdges),
                          visited := Some [], nodeSets := Some sets, highlightedEdge := hl,
                          mstEdges := Some mst\<rparr>"

text \<open>Sequencing of calls that may not return (\<open>None\<close>) or stop with an error.\<close>

definition and_then :: "(error + 'a) option \<Rightarrow> ('a \<Rightarrow> (error + 'b) option) \<Rightarrow> (error + 'b) option" where
  "and_then r f = (case r of None \<Rightarrow> None | Some (Inl e) \<Rightarrow> Some (Inl e) | Some (Inr x) \<Rightarrow> f x)"

text \<open>The \<^verbatim>\<open>for (const edge of sortedEdges)\<close> loop, on the forest, the MST set and the trace.\<close>

fun kruskal_edges ::
  "edge list \<Rightarrow> edge list \<Rightarrow> dsu \<times> string list \<times> Step list
     \<Rightarrow> (error + dsu \<times> string list \<times> Step list) option" where
  "kruskal_edges sortedEdges [] st = Some (Inr st)"
| "kruskal_edges sortedEdges (e # es) (parent, mst, steps) =
     and_then (getSets parent) (\<lambda>(sets1, parent1).
       (let steps1 = steps @ [kruskal_step (Kruskal_Consider e) sortedEdges sets1 (Some e) mst]
        in and_then (find_dsu parent1 (efrom e)) (\<lambda>(rootFrom, parent2).
           and_then (find_dsu parent2 (eto e)) (\<lambda>(rootTo, parent3).
             if rootFrom \<noteq> rootTo then
               and_then (union_dsu parent3 (efrom e) (eto e)) (\<lambda>parent4.
                 (let mst1 = set_add (getEdgeKey e) mst
                  in and_then (getSets parent4) (\<lambda>(sets2, parent5).
                       kruskal_edges sortedEdges es
                         (parent5, mst1,
                          steps1 @ [kruskal_step (Kruskal_Add e) sortedEdges sets2 (Some e) mst1]))))
             else
               and_then (getSets parent3) (\<lambda>(sets2, parent4).
                 kruskal_edges sortedEdges es
                   (parent4, mst,
                    steps1 @ [kruskal_step (Kruskal_Discard e) sortedEdges sets2 (Some e) mst]))))))"

definition generateSteps_kruskal :: "graph \<Rightarrow> (error + Step list) option" where
  "generateSteps_kruskal g =
     (case edges g of
        None \<Rightarrow> Some (Inl TypeError)
      | Some es \<Rightarrow>
          (let sortedEdges = sort_key weight es;
               parent = new_DisjointSet (map nid (nodes g))
           in and_then (getSets parent) (\<lambda>(sets0, parent0).
              and_then (kruskal_edges sortedEdges sortedEdges
                          (parent0, [], [kruskal_step Kruskal_Start sortedEdges sets0 None []]))
                (\<lambda>(parent1, mst, steps).
                   and_then (getSets parent1) (\<lambda>(sets1, parent2).
                     Some (Inr (steps @ [kruskal_step Kruskal_Finished sortedEdges sets1 None mst])))))))"

definition prim_step ::
  "narration \<Rightarrow> string option \<Rightarrow> edge option \<Rightarrow> edge pqueue \<Rightarrow> string list \<Rightarrow> string list \<Rightarrow> Step" where
  "prim_step d cur hl pq vis mst =
     (blank_step d cur)\<lparr>highlightedEdge := hl, dataStructure := Some (toStringArray Cell_prio_edge pq),
                         visited := Some vis, mstEdges := Some mst\<rparr>"

text \<open>
  \<^verbatim>\<open>addEdges\<close>: the \<^verbatim>\<open>forEach\<close> over \<^verbatim>\<open>graph.adj[nodeId] || []\<close>; \<^verbatim>\<open>graph.edges!\<close> is
  read once per neighbour.
\<close>

fun addEdges_loop :: "graph \<Rightarrow> string \<Rightarrow> string list \<Rightarrow> edge pqueue \<Rightarrow> error + edge pqueue" where
  "addEdges_loop g nodeId [] pq = Inr pq"
| "addEdges_loop g nodeId (neighborId # ns) pq =
     (case find_edge g nodeId neighborId of
        Inl e \<Rightarrow> Inl e
      | Inr None \<Rightarrow> addEdges_loop g nodeId ns pq
      | Inr (Some edge) \<Rightarrow> addEdges_loop g nodeId ns (enqueue edge (weight edge) pq))"

definition addEdges :: "graph \<Rightarrow> string \<Rightarrow> string list \<times> edge pqueue \<Rightarrow> error + string list \<times> edge pqueue" where
  "addEdges g nodeId st =
     (case st of (vis, pq) \<Rightarrow>
        (case neighbours_of g nodeId of
           Inl e \<Rightarrow> Inl e
         | Inr neighbors \<Rightarrow>
             (case addEdges_loop g nodeId neighbors pq of
                Inl e \<Rightarrow> Inl e
              | Inr pq1 \<Rightarrow> Inr (set_add nodeId vis, pq1))))"

text \<open>The \<^verbatim>\<open>while (!pq.isEmpty() && visited.size < graph.nodes.length)\<close> loop.\<close>

partial_function (option) prim_loop ::
  "graph \<Rightarrow> edge pqueue \<Rightarrow> string list \<Rightarrow> string list \<Rightarrow> Step list
     \<Rightarrow> (error + string list \<times> string list \<times> Step list) option" where
  "prim_loop g pq vis mst steps =
     (case pq of
        [] \<Rightarrow> Some (Inr (vis, mst, steps))
      | entry # rest \<Rightarrow>
          if \<not> length vis < length (nodes g) then Some (Inr (vis, mst, steps))
          else
            (let edge = fst entry;
                 steps1 = steps @ [prim_step (Prim_Extract edge) None (Some edge) rest vis mst];
                 fromVisited = (efrom edge \<in> set vis);
                 toVisited = (eto edge \<in> set vis)
             in if fromVisited \<and> toVisited then
                  prim_loop g rest vis mst
                    (steps1 @ [prim_step Prim_Both None (Some edge) rest vis mst])
                else
                  (let mst1 = set_add (getEdgeKey edge) mst;
                       newNode = (if fromVisited then eto edge else efrom edge);
                       steps2 = steps1 @ [prim_step (Prim_AddEdge edge newNode) (Some newNode)
                                            (Some edge) rest vis mst1]
                   in case addEdges g newNode (vis, rest) of
                        Inl e \<Rightarrow> Some (Inl e)
                      | Inr (vis1, pq1) \<Rightarrow>
                          prim_loop g pq1 vis1 mst1
                            (steps2 @ [prim_step (Prim_AddNew newNode) (Some newNode) None
                                         pq1 vis1 mst1]))))"

declare prim_loop.simps [code]

definition generateSteps_prim :: "graph \<Rightarrow> string \<Rightarrow> (error + Step list) option" where
  "generateSteps_prim g startNode =
     (let steps0 = [prim_step (Prim_Start startNode) (Some startNode) None [] [] []]
      in case addEdges g startNode ([], []) of
           Inl e \<Rightarrow> Some (Inl e)
         | Inr (vis, pq) \<Rightarrow>
             (case prim_loop g pq vis []
                     (steps0 @ [prim_step (Prim_AddAll startNode) (Some startNode) None pq vis []]) of
                None \<Rightarrow> None
              | Some (Inl e) \<Rightarrow> Some (Inl e)
              | Some (Inr (vis1, mst, steps)) \<Rightarrow>
                  Some (Inr (steps @ [(prim_step Prim_Complete None None [] vis1 mst)
                                      \<lparr>dataStructure := Some []\<rparr>]))))"

text \<open>
  The weight of an MST edge set: the weights of the graph's edges whose key is in it.
\<close>

definition final_mstEdges :: "(error + Step list) option \<Rightarrow> string list option" where
  "final_mstEdges r =
     (case r of None \<Rightarrow> None
      | Some t \<Rightarrow> (case final_step t of None \<Rightarrow> None | Some s \<Rightarrow> mstEdges s))"

definition total_weight :: "graph \<Rightarrow> string list \<Rightarrow> int" where
  "total_weight g keys =
     sum_list (map weight (filter (\<lambda>e. getEdgeKey e \<in> set keys)
                             (case edges g of None \<Rightarrow> [] | Some es \<Rightarrow> es)))"

text \<open>
  An independent reference for the minimum spanning tree weight: among all sub-lists of
  the edge list that connect every node, the least total weight.  Connectivity is
  decided by growing the set of nodes reached from the first node, once per node.
\<close>

definition grow :: "edge list \<Rightarrow> string list \<Rightarrow> string list" where
  "grow es reached =
     fold (\<lambda>e r. if efrom e \<in> set r then set_add (eto e) r
                  else if eto e \<in> set r then set_add (efrom e) r else r) es reached"

definition spans :: "graph \<Rightarrow> edge list \<Rightarrow> bool" where
  "spans g es =
     (case nodes g of
        [] \<Rightarrow> True
      | n # ns \<Rightarrow> set (map nid (nodes g)) \<subseteq> set (((grow es) ^^ length (nodes g)) [nid n]))"

definition reference_mst_weight :: "graph \<Rightarrow> int option" where
  "reference_mst_weight g =
     least (map (\<lambda>es. Some (sum_list (map weight es)))
              (filter (spans g) (subseqs (case edges g of None \<Rightarrow> [] | Some es \<Rightarrow> es))))"

section \<open>Sample runs\<close>

text \<open>Distances along a visiting order never decrease; \<open>None\<close> is "unreachable".\<close>

fun nondecreasing :: "int option list \<Rightarrow> bool" where
  "nondecreasing (Some a # Some b # r) = (a \<le> b \<and> nondecreasing (Some b # r))"
| "nondecreasing (None # Some b # r) = False"
| "nondecreasing (x # None # r) = nondecreasing (None # r)"
| "nondecreasing r = True"

definition as_dist :: "int option \<Rightarrow> dist" where
  "as_dist d = (case d of None \<Rightarrow> Infinite | Some n \<Rightarrow> Finite n)"

text \<open>
  C1, as the code has it.  On the sample network the Ford-Fulkerson generator returns;
  its final Step shows the total flow 18 (not 14); the nodes reachable from \<open>S\<close> in the
  residual graph of the final flow map are \<open>S, B, D, A\<close>; and the capacity of the cut
  they define is 18 as well.
\<close>

theorem ford_fulkerson_sample_max_flow:
  "final_total_flow (generateSteps_ff ff_graphData ''S'' ''T'') = Some [Cell_num 18]
   \<and> residual_reachable ff_graphData
        (final_flows (generateSteps_ff ff_graphData ''S'' ''T'')) ''S''
       = Some [''S'', ''B'', ''D'', ''A'']
   \<and> min_cut_capacity ff_graphData
        (final_flows (generateSteps_ff ff_graphData ''S'' ''T'')) ''S'' = Some 18"
  by code_simp

text \<open>C1 as stated fails: the final total flow on the sample network is not 14.\<close>

theorem ford_fulkerson_sample_not_14:
  "final_total_flow (generateSteps_ff ff_graphData ''S'' ''T'') \<noteq> Some [Cell_num 14]"
  by code_simp

text \<open>
  C4, as the code has it.  On the sample graph from \<open>A\<close> the BFS generator returns; the
  nodes enter the visited sets in the order \<open>A, B, C, D, E, F\<close>, whose reference
  distances from \<open>A\<close> are 0, 1, 1, 2, 2, 3 and so never decrease; the final visited set
  holds all six nodes; and no Step of the trace has a \<open>distances\<close> facet.
\<close>

theorem bfs_sample_layering:
  "returns (generateSteps_bfs bfs_graphData ''A'')
   \<and> marking_order (trace_of (generateSteps_bfs bfs_graphData ''A''))
       = [''A'', ''B'', ''C'', ''D'', ''E'', ''F'']
   \<and> map (reference_distance bfs_graphData unit_cost ''A'')
         (marking_order (trace_of (generateSteps_bfs bfs_graphData ''A'')))
       = [Some 0, Some 1, Some 1, Some 2, Some 2, Some 3]
   \<and> nondecreasing (map (reference_distance bfs_graphData unit_cost ''A'')
         (marking_order (trace_of (generateSteps_bfs bfs_graphData ''A''))))
   \<and> map_option visited (final_step (generateSteps_bfs bfs_graphData ''A''))
       = Some (Some [''A'', ''B'', ''C'', ''D'', ''E'', ''F''])
   \<and> list_all (\<lambda>s. distances s = None) (trace_of (generateSteps_bfs bfs_graphData ''A''))"
  by code_simp

text \<open>
  C4 as stated fails: the final Step of the BFS trace has no distances snapshot, so it
  is not the map \<open>{A:0, B:1, C:1, D:2, E:2, F:3}\<close>.
\<close>

theorem bfs_sample_no_distances:
  "map_option distances (final_step (generateSteps_bfs bfs_graphData ''A'')) = Some None
   \<and> map_option distances (final_step (generateSteps_bfs bfs_graphData ''A''))
       \<noteq> Some (Some [(''A'', Finite 0), (''B'', Finite 1), (''C'', Finite 1),
                       (''D'', Finite 2), (''E'', Finite 2), (''F'', Finite 3)])"
  by code_simp

text \<open>
  C5.  On the weighted sample graph from \<open>A\<close> the Dijkstra generator returns, and the
  distances map of its final Step gives every node of the graph its reference
  shortest-path distance from \<open>A\<close> (the least cost over all simple paths), that is
  \<open>A:0, B:3, C:2, D:8, E:5, F:6\<close>.  The run dequeues and skips a stale entry: \<open>B\<close> is
  enqueued with priority 4 and later with 3, and there are six extractions for seven
  enqueued entries.
\<close>

theorem dijkstra_sample_shortest_paths:
  "final_distances (generateSteps_dijkstra dijkstra_graphData ''A'')
     = Some (map (\<lambda>n. (nid n, as_dist (reference_distance dijkstra_graphData
                                           (edge_cost dijkstra_graphData) ''A'' (nid n))))
               (nodes dijkstra_graphData))
   \<and> final_distances (generateSteps_dijkstra dijkstra_graphData ''A'')
     = Some [(''A'', Finite 0), (''B'', Finite 3), (''C'', Finite 2),
             (''D'', Finite 8), (''E'', Finite 5), (''F'', Finite 6)]
   \<and> map_option (map_sum id (\<lambda>t. (length (filter (\<lambda>s. case description s of
                                                         Dijkstra_Extract _ \<Rightarrow> True | _ \<Rightarrow> False) t),
                                     length (filter (\<lambda>s. case description s of
                                                         Dijkstra_Shorter _ _ \<Rightarrow> True | _ \<Rightarrow> False) t))))
        (generateSteps_dijkstra dijkstra_graphData ''A'') = Some (Inr (6, 6))"
  by code_simp

text \<open>
  C8.  On the six-node weighted sample graph Prim's generator (from \<open>A\<close>) and Kruskal's
  generator both return; the total weights of their final MST edge sets are equal, and
  both are 18, the reference minimum spanning tree weight of the graph.
\<close>

theorem prim_kruskal_same_weight:
  "final_mstEdges (generateSteps_prim mst_graphData ''A'')
     = Some [''A-C'', ''B-C'', ''B-D'', ''D-F'', ''E-F'']
   \<and> final_mstEdges (generateSteps_kruskal mst_graphData)
     = Some [''B-C'', ''A-C'', ''D-F'', ''E-F'', ''B-D'']
   \<and> map_option (total_weight mst_graphData) (final_mstEdges (generateSteps_prim mst_graphData ''A''))
     = map_option (total_weight mst_graphData) (final_mstEdges (generateSteps_kruskal mst_graphData))
   \<and> map_option (total_weight mst_graphData) (final_mstEdges (generateSteps_prim mst_graphData ''A''))
     = reference_mst_weight mst_graphData
   \<and> reference_mst_weight mst_graphData = Some 18"
  by code_simp

section \<open>Union-Find soundness\<close>

text \<open>
  \<open>root_of parent i r\<close>: following parents from \<open>i\<close> ends at \<open>r\<close>, which is its own parent.
  A forest is a \<^verbatim>\<open>parent\<close> object in which this holds of every key: what the constructor
  builds and \<^verbatim>\<open>find\<close> and \<^verbatim>\<open>union\<close> keep.
\<close>

inductive root_of :: "dsu \<Rightarrow> string \<Rightarrow> string \<Rightarrow> bool" for parent :: dsu where
  at_root: "map_of parent i = Some i \<Longrightarrow> root_of parent i i"
| via_parent: "map_of parent i = Some j \<Longrightarrow> j \<noteq> i \<Longrightarrow> root_of parent j r \<Longrightarrow> root_of parent i r"

definition forest :: "dsu \<Rightarrow> bool" where
  "forest parent = (\<forall>i \<in> fst ` set parent. \<exists>r. root_of parent i r)"

text \<open>
  \<^verbatim>\<open>dsu.find(x) === dsu.find(y)\<close>: two calls in sequence, the second on the forest the
  first has compressed.
\<close>

definition same_root :: "dsu \<Rightarrow> string \<Rightarrow> string \<Rightarrow> bool option" where
  "same_root parent x y =
     (case find_dsu parent x of
        Some (Inr (rootX, parent1)) \<Rightarrow>
          (case find_dsu parent1 y of
             Some (Inr (rootY, parent2)) \<Rightarrow> Some (rootX = rootY)
           | _ \<Rightarrow> None)
      | _ \<Rightarrow> None)"

lemma root_of_is_root: "root_of p i r \<Longrightarrow> map_of p r = Some r"
  by (induction rule: root_of.induct) auto

lemma root_of_unique: "root_of p i r \<Longrightarrow> root_of p i r' \<Longrightarrow> r = r'"
proof (induction arbitrary: r' rule: root_of.induct)
  case (at_root i)
  from at_root.prems show ?case
  proof (cases rule: root_of.cases)
    case at_root
    then show ?thesis by simp
  next
    case (via_parent j)
    with at_root.hyps show ?thesis by simp
  qed
next
  case (via_parent i j r)
  from via_parent.prems show ?case
  proof (cases rule: root_of.cases)
    case at_root
    with via_parent.hyps show ?thesis by simp
  next
    case (via_parent j')
    with via_parent.hyps have "j' = j" by simp
    with via_parent.IH via_parent(3) show ?thesis by simp
  qed
qed

lemma root_of_key: "root_of p i r \<Longrightarrow> i \<in> fst ` set p"
  by (cases rule: root_of.cases) (auto dest: map_of_SomeD intro: rev_image_eqI)

lemma map_of_update: "map_of (AList.update k v al) = (map_of al)(k \<mapsto> v)"
  by (rule AList.update_conv')

lemma keys_update: "k \<in> fst ` set al \<Longrightarrow> map fst (AList.update k v al) = map fst al"
  by (simp add: AList.update_keys)

lemma root_of_compress:
  assumes "root_of p i r" "root_of p y r'"
  shows "root_of (AList.update i r p) y r'"
  using assms(2)
proof (induction rule: root_of.induct)
  case (at_root y)
  show ?case
  proof (cases "y = i")
    case True
    with at_root assms(1) have "r = y" using root_of_unique root_of.at_root by blast
    with True have "map_of (AList.update i r p) y = Some y" by (simp add: map_of_update)
    then show ?thesis by (rule root_of.at_root)
  next
    case False
    with at_root have "map_of (AList.update i r p) y = Some y" by (simp add: map_of_update)
    then show ?thesis by (rule root_of.at_root)
  qed
next
  case (via_parent y j r')
  show ?case
  proof (cases "y = i")
    case True
    have ri: "root_of p y r'" using via_parent.hyps by (rule root_of.via_parent)
    with True assms(1) have eq: "r = r'" using root_of_unique by blast
    have rr: "map_of p r' = Some r'" using ri by (rule root_of_is_root)
    have ne: "r' \<noteq> y" using rr via_parent.hyps by auto
    have "map_of (AList.update i r p) r' = Some r'"
      using rr ne True by (simp add: map_of_update)
    then have top: "root_of (AList.update i r p) r' r'" by (rule root_of.at_root)
    have "map_of (AList.update i r p) y = Some r'" using True eq by (simp add: map_of_update)
    from this ne top show ?thesis by (rule root_of.via_parent)
  next
    case False
    with via_parent.hyps have "map_of (AList.update i r p) y = Some j"
      by (simp add: map_of_update)
    from this via_parent.hyps(2) via_parent.IH show ?thesis by (rule root_of.via_parent)
  qed
qed

lemma find_root_of:
  assumes "root_of p i r"
  shows "\<exists>p'. find_dsu p i = Some (Inr (r, p')) \<and> map fst p' = map fst p
              \<and> (\<forall>y r'. root_of p y r' \<longrightarrow> root_of p' y r')"
  using assms
proof (induction rule: root_of.induct)
  case (at_root i)
  then show ?case by (subst find_dsu.simps) simp
next
  case (via_parent i j r)
  then obtain p1 where p1: "find_dsu p j = Some (Inr (r, p1))" "map fst p1 = map fst p"
      "\<forall>y r'. root_of p y r' \<longrightarrow> root_of p1 y r'" by blast
  have ri: "root_of p i r" using via_parent.hyps by (rule root_of.via_parent)
  then have ri1: "root_of p1 i r" using p1(3) by blast
  have f: "find_dsu p i = Some (Inr (r, AList.update i r p1))"
    using via_parent.hyps p1(1) by (subst find_dsu.simps) simp
  have "i \<in> fst ` set p1" using ri1 by (rule root_of_key)
  then have k: "map fst (AList.update i r p1) = map fst p" using p1(2) by (simp add: keys_update)
  have "\<forall>y r'. root_of p y r' \<longrightarrow> root_of (AList.update i r p1) y r'"
    using p1(3) root_of_compress[OF ri1] by blast
  with f k show ?case by blast
qed

lemma same_keys: "map fst p' = map fst p \<Longrightarrow> fst ` set p' = fst ` set p"
proof -
  assume "map fst p' = map fst p"
  then have "set (map fst p') = set (map fst p)" by simp
  then show ?thesis by simp
qed

lemma forest_preserved:
  assumes "forest p" "map fst p' = map fst p" "\<forall>y r'. root_of p y r' \<longrightarrow> root_of p' y r'"
  shows "forest p'"
  unfolding forest_def
proof
  fix i assume "i \<in> fst ` set p'"
  then have "i \<in> fst ` set p" using same_keys[OF assms(2)] by simp
  with assms(1) obtain r where "root_of p i r" unfolding forest_def by blast
  with assms(3) have "root_of p' i r" by blast
  then show "\<exists>r. root_of p' i r" ..
qed

lemma root_of_link:
  assumes "map_of p rI = Some rI" "map_of p rJ = Some rJ" "rI \<noteq> rJ" "root_of p y r"
  shows "root_of (AList.update rJ rI p) y (if r = rJ then rI else r)"
  using assms(4)
proof (induction rule: root_of.induct)
  case (at_root y)
  show ?case
  proof (cases "y = rJ")
    case True
    have "map_of (AList.update rJ rI p) rI = Some rI"
      using assms(1,3) by (simp add: map_of_update)
    then have top: "root_of (AList.update rJ rI p) rI rI" by (rule root_of.at_root)
    have "map_of (AList.update rJ rI p) y = Some rI" using True by (simp add: map_of_update)
    from this assms(3) top have "root_of (AList.update rJ rI p) y rI"
      unfolding True by (rule root_of.via_parent)
    with True show ?thesis by simp
  next
    case False
    with at_root have "map_of (AList.update rJ rI p) y = Some y" by (simp add: map_of_update)
    then have "root_of (AList.update rJ rI p) y y" by (rule root_of.at_root)
    with False show ?thesis by simp
  qed
next
  case (via_parent y j r)
  have "y \<noteq> rJ" using via_parent.hyps assms(2) by auto
  with via_parent.hyps have "map_of (AList.update rJ rI p) y = Some j"
    by (simp add: map_of_update)
  from this via_parent.hyps(2) via_parent.IH show ?case by (rule root_of.via_parent)
qed

lemma forest_root:
  assumes "forest p" "i \<in> fst ` set p"
  obtains r where "root_of p i r"
  using assms unfolding forest_def by blast

lemma find_forest:
  assumes "forest p" "i \<in> fst ` set p"
  shows "\<exists>r p'. find_dsu p i = Some (Inr (r, p')) \<and> root_of p i r \<and> forest p'
           \<and> map fst p' = map fst p \<and> (\<forall>y r'. root_of p y r' \<longrightarrow> root_of p' y r')"
proof -
  from forest_root[OF assms] obtain r where r: "root_of p i r" .
  from find_root_of[OF r] obtain p' where p': "find_dsu p i = Some (Inr (r, p'))"
     "map fst p' = map fst p" "\<forall>y r'. root_of p y r' \<longrightarrow> root_of p' y r'" by blast
  from forest_preserved[OF assms(1) p'(2,3)] have "forest p'" .
  with r p' show ?thesis by blast
qed

lemma same_root_iff:
  assumes "forest p" "root_of p x rx" "root_of p y ry"
  shows "same_root p x y = Some (rx = ry)"
proof -
  from find_root_of[OF assms(2)] obtain p1 where p1: "find_dsu p x = Some (Inr (rx, p1))"
    "\<forall>y r'. root_of p y r' \<longrightarrow> root_of p1 y r'" by blast
  then have "root_of p1 y ry" using assms(3) by blast
  from find_root_of[OF this] obtain p2 where "find_dsu p1 y = Some (Inr (ry, p2))" by blast
  with p1(1) show ?thesis by (simp add: same_root_def)
qed

lemma union_forest:
  assumes "forest p" "a \<in> fst ` set p" "b \<in> fst ` set p"
  shows "\<exists>p'. union_dsu p a b = Some (Inr p') \<and> forest p' \<and> map fst p' = map fst p
               \<and> same_root p' a b = Some True"
proof -
  from find_forest[OF assms(1,2)] obtain rI p1 where 1: "find_dsu p a = Some (Inr (rI, p1))"
    "root_of p a rI" "forest p1" "map fst p1 = map fst p"
    "\<forall>y r'. root_of p y r' \<longrightarrow> root_of p1 y r'" by blast
  have b1: "b \<in> fst ` set p1" using assms(3) same_keys[OF 1(4)] by simp
  from find_forest[OF 1(3) b1] obtain rJ p2 where 2: "find_dsu p1 b = Some (Inr (rJ, p2))"
    "root_of p1 b rJ" "forest p2" "map fst p2 = map fst p1"
    "\<forall>y r'. root_of p1 y r' \<longrightarrow> root_of p2 y r'" by blast
  have a2: "root_of p2 a rI" using 1(2,5) 2(5) by blast
  have b2: "root_of p2 b rJ" using 2(2,5) by blast
  show ?thesis
  proof (cases "rI = rJ")
    case True
    then have u: "union_dsu p a b = Some (Inr p2)" using 1(1) 2(1) by (simp add: union_dsu_def)
    from same_root_iff[OF 2(3) a2 b2] True have "same_root p2 a b = Some True" by simp
    with u 2(3,4) 1(4) show ?thesis by simp
  next
    case False
    let ?p3 = "AList.update rJ rI p2"
    from False have u: "union_dsu p a b = Some (Inr ?p3)" using 1(1) 2(1) by (simp add: union_dsu_def)
    have rI: "map_of p2 rI = Some rI" using a2 by (rule root_of_is_root)
    have rJ: "map_of p2 rJ = Some rJ" using b2 by (rule root_of_is_root)
    have link: "root_of ?p3 y (if r = rJ then rI else r)" if "root_of p2 y r" for y r
      using root_of_link[OF rI rJ False that] .
    have "rJ \<in> fst ` set p2" using rJ by (auto dest: map_of_SomeD intro: rev_image_eqI)
    then have k: "map fst ?p3 = map fst p2" by (simp add: keys_update)
    have f3: "forest ?p3"
      unfolding forest_def
    proof
      fix i assume "i \<in> fst ` set ?p3"
      then have "i \<in> fst ` set p2" using same_keys[OF k] by simp
      from forest_root[OF 2(3) this] obtain r where "root_of p2 i r" .
      from link[OF this] show "\<exists>r. root_of ?p3 i r" by blast
    qed
    have a3: "root_of ?p3 a rI" using link[OF a2] False by simp
    have b3: "root_of ?p3 b rI" using link[OF b2] by simp
    from same_root_iff[OF f3 a3 b3] have "same_root ?p3 a b = Some True" by simp
    with u f3 k 2(4) 1(4) show ?thesis by simp
  qed
qed

lemma find_keeps_same_root:
  assumes "forest p" "x \<in> fst ` set p" "y \<in> fst ` set p" "z \<in> fst ` set p"
  shows "\<exists>r p'. find_dsu p z = Some (Inr (r, p')) \<and> forest p' \<and> map fst p' = map fst p
          \<and> same_root p x y \<noteq> None \<and> same_root p' x y = same_root p x y"
proof -
  from find_forest[OF assms(1,4)] obtain r p' where 1: "find_dsu p z = Some (Inr (r, p'))"
    "forest p'" "map fst p' = map fst p"
    "\<forall>y r'. root_of p y r' \<longrightarrow> root_of p' y r'" by blast
  from forest_root[OF assms(1,2)] obtain rx where rx: "root_of p x rx" .
  from forest_root[OF assms(1,3)] obtain ry where ry: "root_of p y ry" .
  have "same_root p x y = Some (rx = ry)" by (rule same_root_iff[OF assms(1) rx ry])
  moreover have "same_root p' x y = Some (rx = ry)"
  proof -
    have "root_of p' x rx" "root_of p' y ry" using 1(4) rx ry by blast+
    then show ?thesis by (rule same_root_iff[OF 1(2)])
  qed
  ultimately show ?thesis using 1 by simp
qed

lemma new_DisjointSet_map: "map_of (fold (\<lambda>e p. AList.update e e p) es p0) i =
   (if i \<in> set es then Some i else map_of p0 i)"
  by (induction es arbitrary: p0) (auto simp: map_of_update)

lemma new_DisjointSet_keys: "fst ` set (fold (\<lambda>e p. AList.update e e p) es p0) = set es \<union> fst ` set p0"
  by (induction es arbitrary: p0) (simp_all add: AList.dom_update)

lemma new_DisjointSet_forest: "forest (new_DisjointSet es)"
  unfolding forest_def
proof
  fix i assume "i \<in> fst ` set (new_DisjointSet es)"
  then have "i \<in> set es" by (simp add: new_DisjointSet_def new_DisjointSet_keys)
  then have "map_of (new_DisjointSet es) i = Some i"
    by (simp add: new_DisjointSet_def new_DisjointSet_map)
  then have "root_of (new_DisjointSet es) i i" by (rule root_of.at_root)
  then show "\<exists>r. root_of (new_DisjointSet es) i r" ..
qed

text \<open>
  C9.  In a forest, for elements \<open>a\<close>, \<open>b\<close>, \<open>x\<close>, \<open>y\<close>, \<open>z\<close> of it: \<open>union a b\<close>
  returns a forest in which \<open>find a\<close> and \<open>find b\<close> return the same root; and \<open>find z\<close>
  returns a forest in which \<open>find x\<close> and \<open>find y\<close> return the same root exactly when
  they did before the call.  The constructor builds a forest (\<open>new_DisjointSet_forest\<close>).
\<close>

theorem union_find_soundness:
  assumes "forest parent"
    and "a \<in> fst ` set parent" "b \<in> fst ` set parent"
    and "x \<in> fst ` set parent" "y \<in> fst ` set parent" "z \<in> fst ` set parent"
  shows "(\<exists>parent1. union_dsu parent a b = Some (Inr parent1) \<and> forest parent1
            \<and> same_root parent1 a b = Some True)
       \<and> (\<exists>r parent1. find_dsu parent z = Some (Inr (r, parent1)) \<and> forest parent1
            \<and> same_root parent x y \<noteq> None
            \<and> same_root parent1 x y = same_root parent x y)"
proof
  from union_forest[OF assms(1,2,3)]
  show "\<exists>parent1. union_dsu parent a b = Some (Inr parent1) \<and> forest parent1
            \<and> same_root parent1 a b = Some True" by blast
next
  from find_keeps_same_root[OF assms(1,4,5,6)]
  show "\<exists>r parent1. find_dsu parent z = Some (Inr (r, parent1)) \<and> forest parent1
            \<and> same_root parent x y \<noteq> None
            \<and> same_root parent1 x y = same_root parent x y" by blast
qed

lemma chain_forest: "forest [(''A'', ''A''), (''B'', ''A''), (''C'', ''B'')]"
proof -
  let ?p = "[(''A'', ''A''), (''B'', ''A''), (''C'', ''B'')]"
  have a: "root_of ?p ''A'' ''A''" by (rule root_of.at_root) simp
  have b: "root_of ?p ''B'' ''A''" by (rule root_of.via_parent[OF _ _ a]) simp_all
  have c: "root_of ?p ''C'' ''A''" by (rule root_of.via_parent[OF _ _ b]) simp_all
  from a b c show ?thesis unfolding forest_def by auto
qed

theorem union_find_soundness_witness:
  "forest [(''A'', ''A''), (''B'', ''A''), (''C'', ''B'')]
   \<and> find_dsu [(''A'', ''A''), (''B'', ''A''), (''C'', ''B'')] ''C''
       = Some (Inr (''A'', [(''A'', ''A''), (''B'', ''A''), (''C'', ''A'')]))
   \<and> same_root [(''A'', ''A''), (''B'', ''A''), (''C'', ''B'')] ''C'' ''B'' = Some True
   \<and> same_root [(''A'', ''A''), (''B'', ''A''), (''C'', ''A'')] ''C'' ''B'' = Some True
   \<and> (\<exists>parent1. union_dsu [(''A'', ''A''), (''B'', ''A''), (''C'', ''B'')] ''C'' ''A'' = Some (Inr parent1)
          \<and> same_root parent1 ''C'' ''A'' = Some True)"
proof -
  let ?p = "[(''A'', ''A''), (''B'', ''A''), (''C'', ''B'')]"
  have keys: "''A'' \<in> fst ` set ?p" "''B'' \<in> fst ` set ?p" "''C'' \<in> fst ` set ?p" by simp_all
  have f: "find_dsu ?p ''C'' = Some (Inr (''A'', [(''A'', ''A''), (''B'', ''A''), (''C'', ''A'')]))"
    by code_simp
  have s1: "same_root ?p ''C'' ''B'' = Some True" by code_simp
  have s2: "same_root [(''A'', ''A''), (''B'', ''A''), (''C'', ''A'')] ''C'' ''B'' = Some True"
    by code_simp
  from union_find_soundness[OF chain_forest keys(3) keys(1) keys(3) keys(2) keys(3)]
  have "\<exists>parent1. union_dsu ?p ''C'' ''A'' = Some (Inr parent1)
          \<and> same_root parent1 ''C'' ''A'' = Some True" by blast
  with f s1 s2 chain_forest show ?thesis by blast
qed

section \<open>Karger's contraction (randomized min-cut generator)\<close>

definition karger_graphData :: graph where
  "karger_graphData = \<lparr>
     nodes = [\<lparr>nid = ''A'', pos_x = 150, pos_y = 100\<rparr>, \<lparr>nid = ''B'', pos_x = 350, pos_y = 100\<rparr>,
              \<lparr>nid = ''C'', pos_x = 150, pos_y = 300\<rparr>, \<lparr>nid = ''D'', pos_x = 350, pos_y = 300\<rparr>,
              \<lparr>nid = ''E'', pos_x = 250, pos_y = 200\<rparr>],
     adj = [(''A'', [''B'', ''C'', ''E'']), (''B'', [''A'', ''D'', ''E'']), (''C'', [''A'', ''D'', ''E'']),
            (''D'', [''B'', ''C'', ''E'']), (''E'', [''A'', ''B'', ''C'', ''D''])],
     edges = Some [\<lparr>efrom = ''A'', eto = ''B'', weight = 1\<rparr>, \<lparr>efrom = ''A'', eto = ''C'', weight = 3\<rparr>,
                   \<lparr>efrom = ''A'', eto = ''E'', weight = 2\<rparr>, \<lparr>efrom = ''B'', eto = ''D'', weight = 2\<rparr>,
                   \<lparr>efrom = ''B'', eto = ''E'', weight = 4\<rparr>, \<lparr>efrom = ''C'', eto = ''D'', weight = 1\<rparr>,
                   \<lparr>efrom = ''C'', eto = ''E'', weight = 5\<rparr>, \<lparr>efrom = ''D'', eto = ''E'', weight = 3\<rparr>],
     directed = None\<rparr>"

text \<open>
  The generator mutates objects that Steps still refer to, so its objects live in two
  stores addressed by numbers: the edge objects made by the deep copy of
  \<^verbatim>\<open>graphData.edges\<close>, and the arrays that are the values of \<^verbatim>\<open>supernodes\<close>.
  A Step as the generator holds it: \<^verbatim>\<open>highlightedEdge\<close> is a reference to an edge
  object, \<^verbatim>\<open>supernodes\<close> is the shallow copy \<^verbatim>\<open>{ ...supernodes }\<close> (a new map to the same
  arrays), \<^verbatim>\<open>graphData\<close> holds the \<^verbatim>\<open>JSON\<close> deep copies (values).
\<close>

record karger_step =
  ks_description :: narration
  ks_highlightedEdge :: "nat option"
  ks_nodes :: "node list"
  ks_edges :: "edge list"
  ks_supernodes :: "(string \<times> nat) list"
  ks_dataStructure :: "cell list"

record karger_state =
  k_nodes :: "node list"
  k_edges :: "nat list"
  k_supernodes :: "(string \<times> nat) list"
  edge_objects :: "edge list"
  array_objects :: "string list list"
  k_steps :: "karger_step list"

text \<open>Reading a store; every address the generator uses is allocated at the start.\<close>

definition deref :: "'a list \<Rightarrow> nat \<Rightarrow> 'a option" where
  "deref objects a = (if a < length objects then Some (objects ! a) else None)"

text \<open>What a consumer reads from a held Step, given the stores at the time of reading.\<close>

definition observe :: "karger_state \<Rightarrow> karger_step \<Rightarrow> Step" where
  "observe s st =
     (blank_step (ks_description st) None)
       \<lparr>highlightedEdge := Option.bind (ks_highlightedEdge st) (deref (edge_objects s)),
        graphData := Some \<lparr>nodes = ks_nodes st, adj = [], edges = Some (ks_edges st), directed = None\<rparr>,
        supernodes := Some (map (\<lambda>(k, a). (k, case deref (array_objects s) a of None \<Rightarrow> [] | Some xs \<Rightarrow> xs))
                              (ks_supernodes st)),
        dataStructure := Some (ks_dataStructure st)\<rparr>"

definition karger_createStep :: "narration \<Rightarrow> nat option \<Rightarrow> karger_state \<Rightarrow> karger_state" where
  "karger_createStep desc hl s =
     s\<lparr>k_steps := k_steps s @
          [\<lparr>ks_description = desc, ks_highlightedEdge = hl, ks_nodes = k_nodes s,
            ks_edges = List.map_filter (deref (edge_objects s)) (k_edges s),
            ks_supernodes = k_supernodes s,
            ks_dataStructure = [Cell_num (int (length (k_nodes s)))]\<rparr>]\<rparr>"

text \<open>The two deep copies and the \<^verbatim>\<open>forEach\<close> that gives every node an array of its own.\<close>

definition karger_init :: "graph \<Rightarrow> error + karger_state" where
  "karger_init g =
     (case edges g of
        None \<Rightarrow> Inl TypeError
      | Some es \<Rightarrow>
          Inr \<lparr>k_nodes = nodes g,
               k_edges = [0..<length es],
               k_supernodes = fold (\<lambda>(a, n) m. AList.update (nid n) a m) (enumerate 0 (nodes g)) [],
               edge_objects = es,
               array_objects = map (\<lambda>n. [nid n]) (nodes g),
               k_steps = []\<rparr>)"

text \<open>
  \<^verbatim>\<open>edges.forEach(e => { if (e.from === v) e.from = u; if (e.to === v) e.to = u; })\<close>:
  the edge objects are changed in place.
\<close>

definition relabel :: "string \<Rightarrow> string \<Rightarrow> edge \<Rightarrow> edge" where
  "relabel u v e =
     (let e1 = (if efrom e = v then e\<lparr>efrom := u\<rparr> else e)
      in if eto e1 = v then e1\<lparr>eto := u\<rparr> else e1)"

definition relabel_at :: "string \<Rightarrow> string \<Rightarrow> nat \<Rightarrow> edge list \<Rightarrow> edge list" where
  "relabel_at u v a objects =
     (if a < length objects then objects[a := relabel u v (objects ! a)] else objects)"

text \<open>\<^verbatim>\<open>edges.filter(e => e.from !== e.to)\<close> keeps the edges that are not self-loops.\<close>

definition is_loop :: "edge list \<Rightarrow> nat \<Rightarrow> bool" where
  "is_loop objects a = (case deref objects a of None \<Rightarrow> True | Some e \<Rightarrow> efrom e = eto e)"

text \<open>
  One round of the loop for a given \<^verbatim>\<open>edgeIndex\<close>.  \<^verbatim>\<open>edges[edgeIndex]\<close> outside the
  array, and \<^verbatim>\<open>supernodes[u]\<close> or \<^verbatim>\<open>supernodes[v]\<close> without an entry, throw.
  \<^verbatim>\<open>supernodes[u].push(...supernodes[v])\<close> extends the array of \<open>u\<close> in place; the
  narration of the merge reads \<^verbatim>\<open>supernodes[u]\<close> again, after \<^verbatim>\<open>delete supernodes[v]\<close>.
\<close>

definition karger_contract :: "nat \<Rightarrow> karger_state \<Rightarrow> error + karger_state" where
  "karger_contract edgeIndex s =
     (if \<not> edgeIndex < length (k_edges s) then Inl TypeError
      else
        (let edgeToContract = k_edges s ! edgeIndex
         in case deref (edge_objects s) edgeToContract of
              None \<Rightarrow> Inl TypeError
            | Some e \<Rightarrow>
               (let u = efrom e; v = eto e;
                    s1 = karger_createStep (Karger_Select u v) (Some edgeToContract) s;
                    nodes1 = filter (\<lambda>n. nid n \<noteq> v) (k_nodes s1)
                in case Option.bind (map_of (k_supernodes s1) u) (deref (array_objects s1)) of
                     None \<Rightarrow> Inl TypeError
                   | Some arr_u \<Rightarrow>
                      (case Option.bind (map_of (k_supernodes s1) v) (deref (array_objects s1)) of
                         None \<Rightarrow> Inl TypeError
                       | Some arr_v \<Rightarrow>
                          (let arrays1 = (case map_of (k_supernodes s1) u of
                                            None \<Rightarrow> array_objects s1
                                          | Some au \<Rightarrow> (array_objects s1)[au := arr_u @ arr_v]);
                               supernodes1 = AList.delete v (k_supernodes s1);
                               objects1 = fold (relabel_at u v) (k_edges s1) (edge_objects s1);
                               edges1 = filter (\<lambda>a. \<not> is_loop objects1 a) (k_edges s1)
                           in case Option.bind (map_of supernodes1 u) (deref arrays1) of
                                None \<Rightarrow> Inl TypeError
                              | Some merged \<Rightarrow>
                                  Inr (karger_createStep (Karger_Merge v u merged)
                                         (Some edgeToContract)
                                         (s1\<lparr>k_nodes := nodes1, k_edges := edges1,
                                             k_supernodes := supernodes1, edge_objects := objects1,
                                             array_objects := arrays1\<rparr>)))))))"

lemma relabel_idem: "relabel u v (relabel u v e) = relabel u v e"
  by (simp add: relabel_def Let_def)

lemma relabel_at_length: "length (relabel_at u v a h) = length h"
  by (simp add: relabel_at_def)

lemma fold_relabel_length: "length (fold (relabel_at u v) as h) = length h"
  by (induction as arbitrary: h) (simp_all add: relabel_at_length)

lemma fold_relabel:
  "b < length h \<Longrightarrow> fold (relabel_at u v) as h ! b
     = (if b \<in> set as then relabel u v (h ! b) else h ! b)"
proof (induction as arbitrary: h)
  case Nil
  then show ?case by simp
next
  case (Cons a as)
  have len: "b < length (relabel_at u v a h)" using Cons.prems by (simp add: relabel_at_length)
  have at: "relabel_at u v a h ! b = (if a = b then relabel u v (h ! b) else h ! b)"
    using Cons.prems by (auto simp: relabel_at_def)
  show ?case
  proof (cases "a = b")
    case True
    with Cons.IH[OF len] at show ?thesis by (simp add: relabel_idem)
  next
    case False
    with Cons.IH[OF len] at show ?thesis by simp
  qed
qed

lemma relabel_loop: "efrom e = u \<Longrightarrow> eto e = v \<Longrightarrow> efrom (relabel u v e) = eto (relabel u v e)"
  by (simp add: relabel_def Let_def)

lemma contracted_edge_is_loop:
  assumes "a \<in> set as" "deref h a = Some e"
  shows "is_loop (fold (relabel_at (efrom e) (eto e)) as h) a"
proof -
  from assms(2) have a: "a < length h" "h ! a = e" by (auto simp: deref_def split: if_splits)
  have "fold (relabel_at (efrom e) (eto e)) as h ! a = relabel (efrom e) (eto e) e"
    using fold_relabel[OF a(1)] assms(1) a(2) by simp
  then show ?thesis
    using a(1) by (simp add: is_loop_def deref_def fold_relabel_length relabel_loop)
qed

lemma karger_contract_shrinks:
  assumes "karger_contract i s = Inr s'"
  shows "length (k_edges s') < length (k_edges s)"
proof -
  from assms have i: "i < length (k_edges s)"
    by (simp add: karger_contract_def split: if_splits)
  let ?a = "k_edges s ! i"
  from assms i obtain e where e: "deref (edge_objects s) ?a = Some e"
    by (auto simp: karger_contract_def Let_def split: option.splits)
  let ?h = "fold (relabel_at (efrom e) (eto e)) (k_edges s) (edge_objects s)"
  have mem: "?a \<in> set (k_edges s)" using i by simp
  have "is_loop ?h ?a" using contracted_edge_is_loop[OF mem e] .
  then have "length (filter (\<lambda>a. \<not> is_loop ?h a) (k_edges s)) < length (k_edges s)"
    using mem by (intro length_filter_less[where x = "?a"]) simp_all
  moreover have "k_edges s' = filter (\<lambda>a. \<not> is_loop ?h a) (k_edges s)"
    using assms i e
    by (auto simp: karger_contract_def karger_createStep_def Let_def split: option.splits)
  ultimately show ?thesis by simp
qed

text \<open>
  The \<^verbatim>\<open>while (nodes.length > 2 && edges.length > 0)\<close> loop.  The k-th call of
  \<^verbatim>\<open>Math.random()\<close> is the number \<open>rnd k\<close>; \<^verbatim>\<open>Math.floor(Math.random() * edges.length)\<close>
  is an index below \<^verbatim>\<open>edges.length\<close>, here \<open>rnd k mod length edges\<close>, so that every
  sequence of index choices is the run of some \<open>rnd\<close>.
\<close>

function karger_loop :: "(nat \<Rightarrow> nat) \<Rightarrow> nat \<Rightarrow> karger_state \<Rightarrow> error + karger_state" where
  "karger_loop rnd k s =
     (if length (k_nodes s) > 2 \<and> length (k_edges s) > 0 then
        (case karger_contract (rnd k mod length (k_edges s)) s of
           Inl e \<Rightarrow> Inl e
         | Inr s1 \<Rightarrow> karger_loop rnd (Suc k) s1)
      else Inr s)"
  by pat_completeness auto
termination
  by (relation "measure (\<lambda>(rnd, k, s). length (k_edges s))")
     (auto simp: karger_contract_shrinks)

declare karger_loop.simps [simp del]

text \<open>
  The generator takes no argument and works on its module's graph.  \<open>karger_start\<close>
  is the state right after the first \<^verbatim>\<open>createStep\<close>.
\<close>

definition karger_start :: "error + karger_state" where
  "karger_start = map_sum id (karger_createStep Karger_Start None) (karger_init karger_graphData)"

definition karger_finish :: "karger_state \<Rightarrow> karger_state" where
  "karger_finish s =
     (let cutValue = fold (\<lambda>e sum. sum + weight e) (List.map_filter (deref (edge_objects s)) (k_edges s)) 0
      in karger_createStep (Karger_Complete cutValue)
           (case k_edges s of [] \<Rightarrow> None | a # as \<Rightarrow> Some a) s)"

definition karger_run :: "(nat \<Rightarrow> nat) \<Rightarrow> error + karger_state" where
  "karger_run rnd =
     (case karger_start of
        Inl e \<Rightarrow> Inl e
      | Inr s0 \<Rightarrow> map_sum id karger_finish (karger_loop rnd 0 s0))"

definition generateSteps_karger :: "(nat \<Rightarrow> nat) \<Rightarrow> error + Step list" where
  "generateSteps_karger rnd = map_sum id (\<lambda>s. map (observe s) (k_steps s)) (karger_run rnd)"


text \<open>Every index choice at every round, up to a number of rounds, leads to a halt where Q holds.\<close>

fun all_choices :: "nat \<Rightarrow> (karger_state \<Rightarrow> bool) \<Rightarrow> karger_state \<Rightarrow> bool" where
  "all_choices 0 Q s = False"
| "all_choices (Suc n) Q s =
     (if length (k_nodes s) > 2 \<and> length (k_edges s) > 0 then
        list_all (\<lambda>i. case karger_contract i s of Inl e \<Rightarrow> False | Inr s1 \<Rightarrow> all_choices n Q s1)
          [0..<length (k_edges s)]
      else Q s)"

definition contractions :: "Step list \<Rightarrow> nat" where
  "contractions steps =
     length (filter (\<lambda>st. case description st of Karger_Merge _ _ _ \<Rightarrow> True | _ \<Rightarrow> False) steps)"

lemma all_choices_loop:
  "all_choices n Q s \<Longrightarrow> \<exists>s'. karger_loop rnd k s = Inr s' \<and> Q s'"
proof (induction n arbitrary: s k)
  case 0
  then show ?case by simp
next
  case (Suc n)
  show ?case
  proof (cases "length (k_nodes s) > 2 \<and> length (k_edges s) > 0")
    case False
    then have "karger_loop rnd k s = Inr s"
      by (subst karger_loop.simps) (simp only: if_False)
    moreover from False Suc.prems have "Q s" by simp
    ultimately show ?thesis by simp
  next
    case True
    let ?i = "rnd k mod length (k_edges s)"
    have "?i < length (k_edges s)" using True by simp
    with Suc.prems True
    have "case karger_contract ?i s of Inl e \<Rightarrow> False | Inr s1 \<Rightarrow> all_choices n Q s1"
      by (simp add: list_all_iff)
    then obtain s1 where s1: "karger_contract ?i s = Inr s1" "all_choices n Q s1"
      by (auto split: sum.splits)
    from Suc.IH[OF s1(2), of "Suc k"] obtain s' where "karger_loop rnd (Suc k) s1 = Inr s'" "Q s'"
      by blast
    moreover from True s1(1) have "karger_loop rnd k s = karger_loop rnd (Suc k) s1"
      by (subst karger_loop.simps) (simp only: simp_thms if_True sum.case)
    ultimately show ?thesis by simp
  qed
qed

definition three_contractions :: "karger_state \<Rightarrow> bool" where
  "three_contractions s =
     (length (k_steps s) = 7 \<and> length (k_nodes s) = 2
      \<and> length (filter (\<lambda>st. case ks_description st of Karger_Merge _ _ _ \<Rightarrow> True | _ \<Rightarrow> False)
                  (k_steps s)) = 3)"

section \<open>Karger: contraction count and snapshots\<close>

text \<open>
  The first Step of the trace as a consumer reads it in a given state, when it was
  appended, and in the returned trace.
\<close>

definition first_step_at :: "karger_state \<Rightarrow> Step option" where
  "first_step_at s = (case k_steps s of [] \<Rightarrow> None | st # sts \<Rightarrow> Some (observe s st))"

definition first_step_when_emitted :: "Step option" where
  "first_step_when_emitted = (case karger_start of Inl e \<Rightarrow> None | Inr s0 \<Rightarrow> first_step_at s0)"

definition first_returned_step :: "error + Step list \<Rightarrow> Step option" where
  "first_returned_step r = (case r of Inl e \<Rightarrow> None | Inr [] \<Rightarrow> None | Inr (st # sts) \<Rightarrow> Some st)"

text \<open>The random source that always selects index 0.\<close>

definition first_edge :: "nat \<Rightarrow> nat" where
  "first_edge k = 0"

definition halts_well :: "karger_state \<Rightarrow> bool" where
  "halts_well s =
     (three_contractions s
      \<and> map_option supernodes (first_step_at s) \<noteq> map_option supernodes first_step_when_emitted)"

lemma sample_all_choices:
  "case karger_start of Inl e \<Rightarrow> False | Inr s0 \<Rightarrow> all_choices 4 halts_well s0"
  by code_simp

lemma karger_loop_sample:
  obtains s0 s1 where "karger_start = Inr s0" "karger_loop rnd 0 s0 = Inr s1" "halts_well s1"
proof -
  from sample_all_choices obtain s0 where s0: "karger_start = Inr s0" "all_choices 4 halts_well s0"
    by (auto split: sum.splits)
  from all_choices_loop[OF s0(2), of rnd 0] obtain s1 where
    "karger_loop rnd 0 s0 = Inr s1" "halts_well s1" by blast
  with s0(1) that show thesis by blast
qed

lemma description_observe: "description (observe s st) = ks_description st"
  by (simp add: observe_def blank_step_def)

lemma contractions_observe:
  "contractions (map (observe s) sts)
     = length (filter (\<lambda>st. case ks_description st of Karger_Merge _ _ _ \<Rightarrow> True | _ \<Rightarrow> False) sts)"
  by (simp add: contractions_def filter_map o_def description_observe)

lemma first_step_at_finish: "k_steps s \<noteq> [] \<Longrightarrow> first_step_at (karger_finish s) = first_step_at s"
  by (cases "k_steps s")
     (simp_all add: first_step_at_def karger_finish_def karger_createStep_def observe_def Let_def)

lemma first_returned_step_run:
  "karger_run rnd = Inr s \<Longrightarrow> first_returned_step (generateSteps_karger rnd) = first_step_at s"
  by (cases "k_steps s") (simp_all add: generateSteps_karger_def first_returned_step_def first_step_at_def)

lemma karger_trace_shape:
  "returns (generateSteps_karger r) \<and> contractions (trace_of (generateSteps_karger r)) = 3
   \<and> length (trace_of (generateSteps_karger r)) = 8"
proof -
  from karger_loop_sample[of r] obtain s0 s1 where
    s: "karger_start = Inr s0" "karger_loop r 0 s0 = Inr s1" "halts_well s1" by blast
  have run: "karger_run r = Inr (karger_finish s1)"
    unfolding karger_run_def s(1) by (simp add: s(2))
  have three: "three_contractions s1" using s(3) by (simp add: halts_well_def)
  have steps: "k_steps (karger_finish s1) = k_steps s1 @ [last (k_steps (karger_finish s1))]"
    "ks_description (last (k_steps (karger_finish s1)))
       = Karger_Complete (fold (\<lambda>e sum. sum + weight e)
                             (List.map_filter (deref (edge_objects s1)) (k_edges s1)) 0)"
    by (simp_all add: karger_finish_def karger_createStep_def Let_def)
  have gen: "generateSteps_karger r = Inr (map (observe (karger_finish s1)) (k_steps (karger_finish s1)))"
    using run by (simp add: generateSteps_karger_def)
  have "length (k_steps (karger_finish s1)) = 8"
    using three by (simp add: karger_finish_def karger_createStep_def Let_def three_contractions_def)
  moreover have "contractions (map (observe (karger_finish s1)) (k_steps (karger_finish s1))) = 3"
    unfolding contractions_observe
    using three by (subst steps(1)) (simp add: steps(2) three_contractions_def)
  ultimately show ?thesis using gen by (simp add: returns_def trace_of_def)
qed

text \<open>
  C10.  For every random source the Karger generator returns on its five-node sample
  graph after exactly three contractions, with a trace of eight Steps; so any two runs
  give traces of the same length.
\<close>

theorem karger_three_contractions:
  "returns (generateSteps_karger rnd)
   \<and> contractions (trace_of (generateSteps_karger rnd)) = 3
   \<and> length (trace_of (generateSteps_karger rnd)) = 8
   \<and> length (trace_of (generateSteps_karger rnd)) = length (trace_of (generateSteps_karger rnd'))"
  using karger_trace_shape[of rnd] karger_trace_shape[of rnd'] by simp

text \<open>
  C2 fails for the Karger generator.  Its first Step shows, when appended, every node
  as a supernode of its own.  \<^verbatim>\<open>{ ...supernodes }\<close> copies the map, not the arrays in it,
  and \<^verbatim>\<open>supernodes[u].push(...)\<close> extends such an array in place: in the returned trace
  of the run that always selects the first edge, the same first Step shows
  \<open>A: [A, B, C, E]\<close>, and for every random source the first Step of the returned trace
  differs from what it showed when it was appended.
\<close>

theorem karger_first_step_mutates:
  "map_option supernodes first_step_when_emitted
     = Some (Some [(''A'', [''A'']), (''B'', [''B'']), (''C'', [''C'']), (''D'', [''D'']), (''E'', [''E''])])
   \<and> map_option supernodes (first_returned_step (generateSteps_karger first_edge))
     = Some (Some [(''A'', [''A'', ''B'', ''C'', ''E'']), (''B'', [''B'']), (''C'', [''C'']),
                   (''D'', [''D'']), (''E'', [''E''])])
   \<and> map_option supernodes (first_returned_step (generateSteps_karger rnd))
     \<noteq> map_option supernodes first_step_when_emitted"
proof -
  have a: "map_option supernodes first_step_when_emitted
     = Some (Some [(''A'', [''A'']), (''B'', [''B'']), (''C'', [''C'']), (''D'', [''D'']), (''E'', [''E''])])"
    by code_simp
  have b: "map_option supernodes (first_returned_step (generateSteps_karger first_edge))
     = Some (Some [(''A'', [''A'', ''B'', ''C'', ''E'']), (''B'', [''B'']), (''C'', [''C'']),
                   (''D'', [''D'']), (''E'', [''E''])])"
    by code_simp
  from karger_loop_sample[of rnd] obtain s0 s1 where
    s: "karger_start = Inr s0" "karger_loop rnd 0 s0 = Inr s1" "halts_well s1" by blast
  have run: "karger_run rnd = Inr (karger_finish s1)"
    unfolding karger_run_def s(1) by (simp add: s(2))
  have ne: "k_steps s1 \<noteq> []" using s(3) by (auto simp: halts_well_def three_contractions_def)
  have "first_returned_step (generateSteps_karger rnd) = first_step_at s1"
    using first_returned_step_run[OF run] first_step_at_finish[OF ne] by simp
  with s(3) have c: "map_option supernodes (first_returned_step (generateSteps_karger rnd))
     \<noteq> map_option supernodes first_step_when_emitted" by (simp add: halts_well_def)
  from a b c show ?thesis by blast
qed

section \<open>D'Esopo-Pape (desopo-pape.ts)\<close>











section \<open>Termination of generators\<close>

subsection \<open>Runs that return no trace\<close>





subsection \<open>Breadth-first search returns\<close>





subsection \<open>Prim returns\<close>










subsection \<open>Ford-Fulkerson: the search and the outer loop return\<close>




















































subsection \<open>The generators that return\<close>




end
